theory Spec2Isabelle
  imports Complex_Main
begin

section \<open>Array values\<close>

text \<open>
  The library computes on numpy arrays of IEEE doubles. The model keeps the arithmetic
  exact (no rounding, no overflow, no underflow) and keeps the three special values that a division
  by zero produces, because numpy returns them instead of raising: a finite value
  divided by zero is plus or minus infinity, zero divided by zero is not-a-number, and
  every comparison with not-a-number is false. Signed zeros are not modelled: every
  zero divisor that the library itself forms (an absolute value, a difference of two
  equal values, a square) is a positive zero.
\<close>

datatype xreal = Fin real | PInf | NInf | NaN

instantiation xreal :: "{plus, minus, uminus, times, inverse, abs, ord}"
begin

fun plus_xreal :: "xreal \<Rightarrow> xreal \<Rightarrow> xreal" where
  "plus_xreal (Fin a) (Fin b) = Fin (a + b)"
| "plus_xreal NaN y = NaN"
| "plus_xreal x NaN = NaN"
| "plus_xreal PInf NInf = NaN"
| "plus_xreal NInf PInf = NaN"
| "plus_xreal PInf y = PInf"
| "plus_xreal x PInf = PInf"
| "plus_xreal NInf y = NInf"
| "plus_xreal x NInf = NInf"

fun uminus_xreal :: "xreal \<Rightarrow> xreal" where
  "uminus_xreal (Fin a) = Fin (- a)"
| "uminus_xreal PInf = NInf"
| "uminus_xreal NInf = PInf"
| "uminus_xreal NaN = NaN"

fun minus_xreal :: "xreal \<Rightarrow> xreal \<Rightarrow> xreal" where
  "minus_xreal (Fin a) (Fin b) = Fin (a - b)"
| "minus_xreal NaN y = NaN"
| "minus_xreal x NaN = NaN"
| "minus_xreal PInf PInf = NaN"
| "minus_xreal NInf NInf = NaN"
| "minus_xreal PInf y = PInf"
| "minus_xreal x NInf = PInf"
| "minus_xreal NInf y = NInf"
| "minus_xreal x PInf = NInf"

fun times_xreal :: "xreal \<Rightarrow> xreal \<Rightarrow> xreal" where
  "times_xreal (Fin a) (Fin b) = Fin (a * b)"
| "times_xreal NaN y = NaN"
| "times_xreal x NaN = NaN"
| "times_xreal PInf (Fin b) = (if b = 0 then NaN else if 0 < b then PInf else NInf)"
| "times_xreal NInf (Fin b) = (if b = 0 then NaN else if 0 < b then NInf else PInf)"
| "times_xreal (Fin a) PInf = (if a = 0 then NaN else if 0 < a then PInf else NInf)"
| "times_xreal (Fin a) NInf = (if a = 0 then NaN else if 0 < a then NInf else PInf)"
| "times_xreal PInf PInf = PInf"
| "times_xreal PInf NInf = NInf"
| "times_xreal NInf PInf = NInf"
| "times_xreal NInf NInf = PInf"

fun divide_xreal :: "xreal \<Rightarrow> xreal \<Rightarrow> xreal" where
  "divide_xreal (Fin a) (Fin b) =
     (if b = 0 then (if a = 0 then NaN else if 0 < a then PInf else NInf)
      else Fin (a / b))"
| "divide_xreal NaN y = NaN"
| "divide_xreal x NaN = NaN"
| "divide_xreal (Fin a) PInf = Fin 0"
| "divide_xreal (Fin a) NInf = Fin 0"
| "divide_xreal PInf (Fin b) = (if 0 \<le> b then PInf else NInf)"
| "divide_xreal NInf (Fin b) = (if 0 \<le> b then NInf else PInf)"
| "divide_xreal x y = NaN"

fun inverse_xreal :: "xreal \<Rightarrow> xreal" where
  "inverse_xreal (Fin a) = (if a = 0 then PInf else Fin (1 / a))"
| "inverse_xreal PInf = Fin 0"
| "inverse_xreal NInf = Fin 0"
| "inverse_xreal NaN = NaN"

fun abs_xreal :: "xreal \<Rightarrow> xreal" where
  "abs_xreal (Fin a) = Fin \<bar>a\<bar>"
| "abs_xreal PInf = PInf"
| "abs_xreal NInf = PInf"
| "abs_xreal NaN = NaN"

fun less_eq_xreal :: "xreal \<Rightarrow> xreal \<Rightarrow> bool" where
  "less_eq_xreal (Fin a) (Fin b) = (a \<le> b)"
| "less_eq_xreal NaN y = False"
| "less_eq_xreal x NaN = False"
| "less_eq_xreal NInf y = True"
| "less_eq_xreal x PInf = True"
| "less_eq_xreal x y = False"

fun less_xreal :: "xreal \<Rightarrow> xreal \<Rightarrow> bool" where
  "less_xreal (Fin a) (Fin b) = (a < b)"
| "less_xreal NaN y = False"
| "less_xreal x NaN = False"
| "less_xreal PInf y = False"
| "less_xreal x NInf = False"
| "less_xreal x y = True"

instance ..

end

text \<open>\<open>np.maximum\<close> and the reductions \<open>np.min\<close>, \<open>np.max\<close>: not-a-number propagates.\<close>

fun maximum :: "xreal \<Rightarrow> xreal \<Rightarrow> xreal" where
  "maximum NaN y = NaN"
| "maximum x NaN = NaN"
| "maximum x y = (if x \<le> y then y else x)"

fun minimum :: "xreal \<Rightarrow> xreal \<Rightarrow> xreal" where
  "minimum NaN y = NaN"
| "minimum x NaN = NaN"
| "minimum x y = (if x \<le> y then x else y)"

text \<open>
  The Python exceptions the modelled code can raise. \<open>LinAlgError\<close> is raised by
  \<open>np.linalg.inv\<close>, \<open>UnboundLocalError\<close> by reading a local variable that no
  statement has assigned yet, \<open>ZeroDivisionError\<close> by dividing Python floats (numpy
  arrays and numpy scalars return an infinity or not-a-number instead).
\<close>

datatype error =
  ValueError | IndexError | TypeError | ZeroDivisionError | LinAlgError | UnboundLocalError

definition np_min :: "xreal list \<Rightarrow> error + xreal" where
  "np_min xs = (case xs of [] \<Rightarrow> Inl ValueError | y # ys \<Rightarrow> Inr (foldl minimum y ys))"

definition np_max :: "xreal list \<Rightarrow> error + xreal" where
  "np_max xs = (case xs of [] \<Rightarrow> Inl ValueError | y # ys \<Rightarrow> Inr (foldl maximum y ys))"

text \<open>\<open>np.roll(h, k)\<close>: entry \<open>i\<close> of the result is entry \<open>(i - k) mod n\<close> of \<open>h\<close>.\<close>

definition roll :: "'a list \<Rightarrow> int \<Rightarrow> 'a list" where
  "roll h k = (if h = [] then [] else rotate (nat ((- k) mod int (length h))) h)"

text \<open>
  An elementwise operation on two one-dimensional arrays, with numpy's broadcasting: the
  lengths agree, or one of them is 1; any other pair of shapes raises \<open>ValueError\<close>.
\<close>

definition bcast :: "(xreal \<Rightarrow> xreal \<Rightarrow> xreal) \<Rightarrow> xreal list \<Rightarrow> xreal list \<Rightarrow> error + xreal list" where
  "bcast f xs ys =
     (if length xs = length ys then Inr (map2 f xs ys)
      else if length xs = 1 then Inr (map (f (hd xs)) ys)
      else if length ys = 1 then Inr (map (\<lambda>x. f x (hd ys)) xs)
      else Inl ValueError)"

text \<open>A coefficient is a Python scalar or a per-point array.\<close>

datatype coef = Scalar xreal | PerPoint "xreal list"

fun coef_map :: "(xreal \<Rightarrow> xreal) \<Rightarrow> coef \<Rightarrow> coef" where
  "coef_map f (Scalar s) = Scalar (f s)"
| "coef_map f (PerPoint as) = PerPoint (map f as)"

text \<open>\<open>a op xs\<close> and \<open>xs op a\<close> for a coefficient \<open>a\<close> and an array \<open>xs\<close>.\<close>

fun coef_arr :: "(xreal \<Rightarrow> xreal \<Rightarrow> xreal) \<Rightarrow> coef \<Rightarrow> xreal list \<Rightarrow> error + xreal list" where
  "coef_arr f (Scalar s) xs = Inr (map (f s) xs)"
| "coef_arr f (PerPoint as) xs = bcast f as xs"

fun arr_coef :: "(xreal \<Rightarrow> xreal \<Rightarrow> xreal) \<Rightarrow> xreal list \<Rightarrow> coef \<Rightarrow> error + xreal list" where
  "arr_coef f xs (Scalar s) = Inr (map (\<lambda>x. f x s) xs)"
| "arr_coef f xs (PerPoint as) = bcast f xs as"

text \<open>
  \<open>np.gradient(x)\<close> with unit spacing: one-sided differences at the two ends, halved
  central differences inside; fewer than two points raise \<open>ValueError\<close>.
\<close>

definition gradient :: "xreal list \<Rightarrow> error + xreal list" where
  "gradient x =
     (let n = length x in
      if n < 2 then Inl ValueError
      else Inr (map (\<lambda>i. if i = 0 then x ! 1 - x ! 0
                         else if i = n - 1 then x ! (n - 1) - x ! (n - 2)
                         else (x ! (i + 1) - x ! (i - 1)) / Fin 2) [0..<n]))"

section \<open>Derivative operators\<close>

definition deriv_dnw :: "xreal list \<Rightarrow> xreal list \<Rightarrow> error + xreal list" where
  "deriv_dnw xx hh =
     bcast (/) (map2 (-) (roll hh (- 1)) hh) (map2 (-) (roll xx (- 1)) xx)"

definition deriv_upw :: "xreal list \<Rightarrow> xreal list \<Rightarrow> error + xreal list" where
  "deriv_upw xx hh =
     bcast (/) (map2 (-) hh (roll hh 1)) (map2 (-) xx (roll xx 1))"

definition deriv_cent :: "xreal list \<Rightarrow> xreal list \<Rightarrow> error + xreal list" where
  "deriv_cent xx hh =
     bcast (/) (map2 (-) (roll hh (- 1)) (roll hh 1)) (map2 (-) (roll xx (- 1)) (roll xx 1))"

text \<open>The derivative operators a caller can select.\<close>

datatype selector = Downwind | Upwind | Centered

fun ddx_of :: "selector \<Rightarrow> xreal list \<Rightarrow> xreal list \<Rightarrow> error + xreal list" where
  "ddx_of Downwind = deriv_dnw"
| "ddx_of Upwind = deriv_upw"
| "ddx_of Centered = deriv_cent"

section \<open>CFL estimators and right-hand sides\<close>

definition cfl_adv_burger :: "coef \<Rightarrow> xreal list \<Rightarrow> error + xreal" where
  "cfl_adv_burger a x =
     (case gradient x of Inl e \<Rightarrow> Inl e
      | Inr dx \<Rightarrow>
          (case arr_coef (/) dx (coef_map abs a) of Inl e \<Rightarrow> Inl e
           | Inr q \<Rightarrow> np_min q))"

text \<open>
  \<open>cfl_diff_burger\<close> squares the spacings. The model's square is exact, so the square
  of a nonzero spacing is nonzero; in doubles \<open>dx**2\<close> underflows to \<open>0.0\<close> for a
  spacing below about \<open>1.5e-162\<close> (for instance \<open>2^-600\<close>), and the quotient by a zero
  coefficient is then not-a-number instead of infinity. What is proved about the value
  of \<open>cfl_diff_burger\<close> is proved for exact arithmetic.
\<close>

definition cfl_diff_burger :: "coef \<Rightarrow> xreal list \<Rightarrow> error + xreal" where
  "cfl_diff_burger a x =
     (case gradient x of Inl e \<Rightarrow> Inl e
      | Inr dx \<Rightarrow>
          (case arr_coef (/) (map (\<lambda>d. d * d) dx) (coef_map (\<lambda>v. Fin 2 * \<bar>v\<bar>) a) of
             Inl e \<Rightarrow> Inl e
           | Inr q \<Rightarrow> np_min q))"

definition step_adv_burgers ::
  "xreal list \<Rightarrow> xreal list \<Rightarrow> coef \<Rightarrow> xreal \<Rightarrow> (xreal list \<Rightarrow> xreal list \<Rightarrow> error + xreal list)
     \<Rightarrow> error + (xreal \<times> xreal list)" where
  "step_adv_burgers xx hh a cfl_cut ddx =
     (case cfl_adv_burger a xx of Inl e \<Rightarrow> Inl e
      | Inr c \<Rightarrow>
          (case ddx xx hh of Inl e \<Rightarrow> Inl e
           | Inr d \<Rightarrow>
               (case coef_arr (*) (coef_map uminus a) d of Inl e \<Rightarrow> Inl e
                | Inr rhs \<Rightarrow> Inr (c * cfl_cut, rhs))))"

definition step_uadv_burgers ::
  "xreal list \<Rightarrow> xreal list \<Rightarrow> xreal \<Rightarrow> (xreal list \<Rightarrow> xreal list \<Rightarrow> error + xreal list)
     \<Rightarrow> error + (xreal \<times> xreal list)" where
  "step_uadv_burgers xx hh cfl_cut ddx =
     (let a = hh in
      case cfl_adv_burger (PerPoint a) xx of Inl e \<Rightarrow> Inl e
      | Inr dt \<Rightarrow>
          (case ddx xx hh of Inl e \<Rightarrow> Inl e
           | Inr d \<Rightarrow>
               (case bcast (*) (map uminus a) d of Inl e \<Rightarrow> Inl e
                | Inr rhs \<Rightarrow> Inr (dt, rhs))))"

section \<open>Boundary policy\<close>

text \<open>
  Python's slice bounds: a negative bound counts from the end, and a bound outside the
  array is clipped, so a slice never raises.
\<close>

definition slice_bound :: "nat \<Rightarrow> int \<Rightarrow> nat" where
  "slice_bound n i = (if i < 0 then nat (max 0 (int n + i)) else min n (nat i))"

definition py_slice :: "'a list \<Rightarrow> int \<Rightarrow> int \<Rightarrow> 'a list" where
  "py_slice u lo hi =
     (let b = slice_bound (length u) lo; e = slice_bound (length u) hi
      in take (e - b) (drop b u))"

definition py_slice_from :: "'a list \<Rightarrow> int \<Rightarrow> 'a list" where
  "py_slice_from u lo = drop (slice_bound (length u) lo) u"

text \<open>
  The padding modes of \<open>np.pad\<close> that the library's boundary policy names. A negative
  pad width raises \<open>ValueError\<close>; so does extending an empty array in any mode but
  \<open>constant\<close>. No fill value is passed, so \<open>constant\<close> pads with zeros. \<open>wrap\<close> fills
  the margins with whole periods of the array.
\<close>

datatype pad_mode = Wrap | Edge | Constant

definition np_pad :: "xreal list \<Rightarrow> int \<times> int \<Rightarrow> pad_mode \<Rightarrow> error + xreal list" where
  "np_pad v w mode =
     (let l = fst w; r = snd w; m = length v in
      if l < 0 \<or> r < 0 then Inl ValueError
      else (case mode of
          Constant \<Rightarrow> Inr (replicate (nat l) (Fin 0) @ v @ replicate (nat r) (Fin 0))
        | Edge \<Rightarrow>
            if m = 0 then (if l = 0 \<and> r = 0 then Inr [] else Inl ValueError)
            else Inr (replicate (nat l) (hd v) @ v @ replicate (nat r) (last v))
        | Wrap \<Rightarrow>
            if m = 0 then (if l = 0 \<and> r = 0 then Inr [] else Inl ValueError)
            else Inr (map (\<lambda>k. v ! nat ((int k - l) mod int m)) [0..<nat l + m + nat r])))"

text \<open>
  The boundary fix that every stepper applies to its candidate: slice the margins off,
  then pad back.
\<close>

definition bnd_fix :: "pad_mode \<Rightarrow> int \<times> int \<Rightarrow> xreal list \<Rightarrow> error + xreal list" where
  "bnd_fix bnd_type bnd_limits u_next =
     (let u_next_temp =
        (if snd bnd_limits > 0 then py_slice u_next (fst bnd_limits) (- snd bnd_limits)
         else py_slice_from u_next (fst bnd_limits))
      in np_pad u_next_temp bnd_limits bnd_type)"

section \<open>The explicit time loop\<close>

text \<open>
  A time series is the pair \<open>(t, unnt)\<close>; \<open>unnt\<close> is kept as the list of its \<open>nt\<close>
  columns, each a field of \<open>N\<close> values. Assigning an array to a column broadcasts an
  array of length 1 and raises \<open>ValueError\<close> on any other length mismatch; column 0 of
  a matrix with no column raises \<open>IndexError\<close>.
\<close>

type_synonym series = "xreal list \<times> xreal list list"

definition set_col :: "nat \<Rightarrow> xreal list \<Rightarrow> error + xreal list" where
  "set_col N v =
     (if length v = N then Inr v
      else if length v = 1 then Inr (replicate N (hd v))
      else Inl ValueError)"

definition init_series :: "xreal list \<Rightarrow> xreal list \<Rightarrow> nat \<Rightarrow> error + series" where
  "init_series xx hh nt =
     (if nt = 0 then Inl IndexError
      else (case set_col (length xx) hh of Inl e \<Rightarrow> Inl e
            | Inr c \<Rightarrow>
                Inr (replicate nt (Fin 0),
                     (replicate nt (replicate (length xx) (Fin 0)))[0 := c])))"

fun for_range :: "(nat \<Rightarrow> 's \<Rightarrow> error + 's) \<Rightarrow> nat list \<Rightarrow> 's \<Rightarrow> error + 's" where
  "for_range body [] s = Inr s"
| "for_range body (i # js) s =
     (case body i s of Inl e \<Rightarrow> Inl e | Inr s' \<Rightarrow> for_range body js s')"

text \<open>
  One pass of the loop body shared by the explicit steppers: the scheme maps column \<open>i\<close>
  to the step size and the boundary-fixed next field, which is stored as column \<open>i+1\<close>,
  and the time advances.
\<close>

definition store_step ::
  "(xreal list \<Rightarrow> error + (xreal \<times> xreal list)) \<Rightarrow> nat \<Rightarrow> nat \<Rightarrow> series \<Rightarrow> error + series" where
  "store_step scheme N i s =
     (case scheme (snd s ! i) of Inl e \<Rightarrow> Inl e
      | Inr (dt, v) \<Rightarrow>
          (case set_col N v of Inl e \<Rightarrow> Inl e
           | Inr c \<Rightarrow> Inr ((fst s)[i + 1 := fst s ! i + dt], (snd s)[i + 1 := c])))"

definition time_loop ::
  "(xreal list \<Rightarrow> error + (xreal \<times> xreal list)) \<Rightarrow> nat \<Rightarrow> nat \<Rightarrow> series \<Rightarrow> error + series" where
  "time_loop scheme N nt s = for_range (store_step scheme N) [0..<nt - 1] s"

section \<open>Explicit advection steppers\<close>

text \<open>The body of the loop of \<open>evolv_adv_burgers\<close> between reading and storing a column.\<close>

definition adv_burgers_next ::
  "xreal list \<Rightarrow> coef \<Rightarrow> xreal \<Rightarrow> (xreal list \<Rightarrow> xreal list \<Rightarrow> error + xreal list)
     \<Rightarrow> xreal list \<Rightarrow> error + (xreal \<times> xreal list)" where
  "adv_burgers_next xx a cfl_cut ddx u =
     (case step_adv_burgers xx u a cfl_cut ddx of Inl e \<Rightarrow> Inl e
      | Inr (dt, rhs) \<Rightarrow>
          (case bcast (+) u (map (\<lambda>r. r * dt) rhs) of Inl e \<Rightarrow> Inl e
           | Inr u_next \<Rightarrow> Inr (dt, u_next)))"

definition with_bnd ::
  "pad_mode \<Rightarrow> int \<times> int \<Rightarrow> error + (xreal \<times> xreal list) \<Rightarrow> error + (xreal \<times> xreal list)" where
  "with_bnd bnd_type bnd_limits r =
     (case r of Inl e \<Rightarrow> Inl e
      | Inr (dt, u_next) \<Rightarrow>
          (case bnd_fix bnd_type bnd_limits u_next of Inl e \<Rightarrow> Inl e
           | Inr p \<Rightarrow> Inr (dt, p)))"

definition evolv_adv_burgers ::
  "xreal list \<Rightarrow> xreal list \<Rightarrow> nat \<Rightarrow> coef \<Rightarrow> xreal
     \<Rightarrow> (xreal list \<Rightarrow> xreal list \<Rightarrow> error + xreal list) \<Rightarrow> pad_mode \<Rightarrow> int \<times> int
     \<Rightarrow> error + series" where
  "evolv_adv_burgers xx hh nt a cfl_cut ddx bnd_type bnd_limits =
     (case init_series xx hh nt of Inl e \<Rightarrow> Inl e
      | Inr s \<Rightarrow>
          time_loop (\<lambda>u. with_bnd bnd_type bnd_limits (adv_burgers_next xx a cfl_cut ddx u))
            (length xx) nt s)"

text \<open>
  The Lax candidate. Inside the loop the column \<open>u\<close> has the grid's length, so the
  elementwise operations meet arrays of one shape.
\<close>

definition Lax_u_next :: "xreal list \<Rightarrow> xreal list \<Rightarrow> xreal \<Rightarrow> xreal list" where
  "Lax_u_next xx u dt =
     map2 (-)
       (map (\<lambda>s. Fin (1/2) * s) (map2 (+) (roll u (- 1)) (roll u 1)))
       (map2 (*)
          (map2 (/) (map (\<lambda>v. v * dt) u) (map2 (-) (roll xx (- 1)) (roll xx 1)))
          (map2 (-) (roll u (- 1)) (roll u 1)))"

definition Lax_uadv_next ::
  "xreal list \<Rightarrow> xreal \<Rightarrow> (xreal list \<Rightarrow> xreal list \<Rightarrow> error + xreal list)
     \<Rightarrow> xreal list \<Rightarrow> error + (xreal \<times> xreal list)" where
  "Lax_uadv_next xx cfl_cut ddx u =
     (case step_uadv_burgers xx u cfl_cut ddx of Inl e \<Rightarrow> Inl e
      | Inr (dt, rhs) \<Rightarrow> Inr (dt, Lax_u_next xx u dt))"

definition evolv_Lax_uadv_burgers ::
  "xreal list \<Rightarrow> xreal list \<Rightarrow> nat \<Rightarrow> xreal
     \<Rightarrow> (xreal list \<Rightarrow> xreal list \<Rightarrow> error + xreal list) \<Rightarrow> pad_mode \<Rightarrow> int \<times> int
     \<Rightarrow> error + series" where
  "evolv_Lax_uadv_burgers xx hh nt cfl_cut ddx bnd_type bnd_limits =
     (case init_series xx hh nt of Inl e \<Rightarrow> Inl e
      | Inr s \<Rightarrow>
          time_loop (\<lambda>u. with_bnd bnd_type bnd_limits (Lax_uadv_next xx cfl_cut ddx u))
            (length xx) nt s)"

text \<open>
  The Rusanov-flux candidate of \<open>evolv_Rie_uadv_burgers\<close>, given \<open>dx = xx[1] - xx[0]\<close>.
  Neither \<open>cfl_cut\<close> nor \<open>ddx\<close> is read by the source's loop.
\<close>

definition Rie_uadv_next :: "xreal list \<Rightarrow> xreal \<Rightarrow> xreal list \<Rightarrow> error + (xreal \<times> xreal list)" where
  "Rie_uadv_next xx dx u =
     (let u_L = roll u 0;
          u_R = roll u (- 1);
          F_L = map (\<lambda>v. Fin (1/2) * (v * v)) u_L;
          F_R = map (\<lambda>v. Fin (1/2) * (v * v)) u_R;
          v_a = map2 maximum (map abs u_L) (map abs u_R);
          F_plus05 = map2 (-)
             (map (\<lambda>s. Fin (1/2) * s) (map2 (+) F_L F_R))
             (map2 (*) (map (\<lambda>v. Fin (1/2) * v) v_a) (map2 (-) u_R u_L));
          F_int = map (\<lambda>d. d / dx) (map2 (-) F_plus05 (roll F_plus05 1))
      in case cfl_adv_burger (PerPoint v_a) xx of Inl e \<Rightarrow> Inl e
         | Inr dt \<Rightarrow> Inr (dt, map2 (-) u (map (\<lambda>g. dt * g) F_int)))"

definition evolv_Rie_uadv_burgers ::
  "xreal list \<Rightarrow> xreal list \<Rightarrow> nat \<Rightarrow> xreal
     \<Rightarrow> (xreal list \<Rightarrow> xreal list \<Rightarrow> error + xreal list) \<Rightarrow> pad_mode \<Rightarrow> int \<times> int
     \<Rightarrow> error + series" where
  "evolv_Rie_uadv_burgers xx hh nt cfl_cut ddx bnd_type bnd_limits =
     (case init_series xx hh nt of Inl e \<Rightarrow> Inl e
      | Inr s \<Rightarrow>
          if length xx < 2 then Inl IndexError
          else time_loop (\<lambda>u. with_bnd bnd_type bnd_limits (Rie_uadv_next xx (xx ! 1 - xx ! 0) u))
                 (length xx) nt s)"

section \<open>Implicit diffusion solver\<close>

text \<open>
  A matrix is the list of its rows. An array assigned to one matrix entry must hold one
  value; any other size raises \<open>ValueError\<close>.
\<close>

definition mat_set :: "xreal list list \<Rightarrow> nat \<Rightarrow> nat \<Rightarrow> xreal \<Rightarrow> xreal list list" where
  "mat_set J i j v = J[i := (J ! i)[j := v]]"

fun coef_scalar :: "coef \<Rightarrow> error + xreal" where
  "coef_scalar (Scalar s) = Inr s"
| "coef_scalar (PerPoint as) = (if length as = 1 then Inr (hd as) else Inl ValueError)"

definition NR_f :: "xreal list \<Rightarrow> xreal list \<Rightarrow> xreal list \<Rightarrow> coef \<Rightarrow> xreal \<Rightarrow> error + xreal list" where
  "NR_f xx un uo a dt =
     (if length xx < 2 then Inl IndexError
      else let dx = xx ! 1 - xx ! 0 in
        case bcast (-) un uo of Inl e \<Rightarrow> Inl e
        | Inr d \<Rightarrow>
            (case coef_arr (*) a
                    (map2 (+) (map2 (-) (roll un (- 1)) (map (\<lambda>v. Fin 2 * v) un)) (roll un 1)) of
               Inl e \<Rightarrow> Inl e
             | Inr lap \<Rightarrow> bcast (-) d (map (\<lambda>v. v * dt / (dx * dx)) lap)))"

definition jacobian :: "xreal list \<Rightarrow> xreal list \<Rightarrow> coef \<Rightarrow> xreal \<Rightarrow> error + xreal list list" where
  "jacobian xx un a dt =
     (if length xx < 2 then Inl IndexError
      else let dx = xx ! 1 - xx ! 0; N = length xx in
        for_range
          (\<lambda>i J. case coef_scalar a of Inl e \<Rightarrow> Inl e
             | Inr a \<Rightarrow>
                 let J1 = mat_set J i i (Fin 1 + dt * Fin 2 * a / (dx * dx));
                     J2 = (if i < N - 1 then mat_set J1 i (i + 1) (- dt * a / (dx * dx)) else J1);
                     J3 = (if i > 1 then mat_set J2 i (i - 1) (- dt * a / (dx * dx)) else J2)
                 in Inr J3)
          [0..<N] (replicate N (replicate N (Fin 0))))"

definition NR_f_u :: "xreal list \<Rightarrow> xreal list \<Rightarrow> xreal list \<Rightarrow> xreal \<Rightarrow> error + xreal list" where
  "NR_f_u xx un uo dt =
     (if length xx < 2 then Inl IndexError
      else let dx = xx ! 1 - xx ! 0 in
        case bcast (-) un uo of Inl e \<Rightarrow> Inl e
        | Inr d \<Rightarrow>
            bcast (-) d
              (map (\<lambda>v. v * dt / (dx * dx))
                 (map2 (*) un
                    (map2 (+) (map2 (-) (roll un (- 1)) (map (\<lambda>v. Fin 2 * v) un)) (roll un 1)))))"

definition jacobian_u :: "xreal list \<Rightarrow> xreal list \<Rightarrow> xreal \<Rightarrow> error + xreal list list" where
  "jacobian_u xx un dt =
     (if length xx < 2 then Inl IndexError
      else let dx = xx ! 1 - xx ! 0; N = length xx in
        for_range
          (\<lambda>i J. if length un \<le> i then Inl IndexError
             else
               let J1 = mat_set J i i (Fin 1 + dt * Fin 2 * (un ! i) / (dx * dx));
                   J2 = (if i < N - 1 then mat_set J1 i (i + 1) (- dt * (un ! i) / (dx * dx)) else J1);
                   J3 = (if i > 1 then mat_set J2 i (i - 1) (- dt * (un ! i) / (dx * dx)) else J2)
               in Inr J3)
          [0..<N] (replicate N (replicate N (Fin 0))))"

text \<open>\<open>np.matmul\<close> of a matrix and a vector; the row length must be the vector's.\<close>

definition matmul :: "xreal list list \<Rightarrow> xreal list \<Rightarrow> error + xreal list" where
  "matmul M v =
     (if list_all (\<lambda>row. length row = length v) M
      then Inr (map (\<lambda>row. foldl (+) (Fin 0) (map2 (*) row v)) M)
      else Inl ValueError)"

text \<open>
  One pass of the Newton iteration: from the guess \<open>ug\<close> to the error and the
  boundary-fixed iterate. \<open>np.linalg.inv\<close> is numpy's; the model takes it as the
  parameter \<open>np_inv\<close>, which returns the inverse or raises.
\<close>

definition nr_pass ::
  "(xreal list list \<Rightarrow> error + xreal list list) \<Rightarrow> xreal \<Rightarrow> pad_mode \<Rightarrow> int \<times> int
     \<Rightarrow> error + xreal list list \<Rightarrow> error + xreal list \<Rightarrow> xreal list
     \<Rightarrow> error + (xreal \<times> xreal list)" where
  "nr_pass np_inv toll bnd_type bnd_limits jac ff1 ug =
     (case jac of Inl e \<Rightarrow> Inl e
      | Inr jac \<Rightarrow>
     (case ff1 of Inl e \<Rightarrow> Inl e
      | Inr ff1 \<Rightarrow>
     (case np_inv jac of Inl e \<Rightarrow> Inl e
      | Inr ij \<Rightarrow>
     (case matmul ij ff1 of Inl e \<Rightarrow> Inl e
      | Inr mv \<Rightarrow>
     (case bcast (-) ug mv of Inl e \<Rightarrow> Inl e
      | Inr un \<Rightarrow>
     (case bcast (-) un ug of Inl e \<Rightarrow> Inl e
      | Inr d \<Rightarrow>
     (case np_max (map2 (/) (map abs d) (map (\<lambda>v. \<bar>v\<bar> + toll) un)) of Inl e \<Rightarrow> Inl e
      | Inr err \<Rightarrow>
     (case bnd_fix bnd_type bnd_limits un of Inl e \<Rightarrow> Inl e
      | Inr p \<Rightarrow> Inr (err, p)))))))))"

text \<open>
  The local variables of \<open>Newton_Raphson\<close> that outlive one pass. \<open>un\<close> is unbound
  until the first pass assigns it.
\<close>

record nr_state =
  nr_err :: xreal
  nr_un :: "xreal list option"
  nr_t :: "xreal list"
  nr_unnt :: "xreal list list"
  nr_errt :: "xreal list"
  nr_countt :: "nat list"

function nr_while ::
  "(xreal list \<Rightarrow> error + (xreal \<times> xreal list)) \<Rightarrow> xreal \<Rightarrow> int \<Rightarrow> nat \<Rightarrow> nat \<Rightarrow> xreal list
     \<Rightarrow> nr_state \<Rightarrow> error + nr_state" where
  "nr_while pass toll ncount it count ug s =
     (if toll \<le> nr_err s \<and> int count < ncount then
        (case pass ug of Inl e \<Rightarrow> Inl e
         | Inr (err, un) \<Rightarrow>
             nr_while pass toll ncount it (count + 1) un
               (s\<lparr>nr_err := err, nr_un := Some un,
                  nr_errt := (nr_errt s)[it := err],
                  nr_countt := (nr_countt s)[it := count + 1]\<rparr>))
      else Inr s)"
  by pat_completeness auto
termination
  by (relation "measure (\<lambda>(pass, toll, ncount, it, count, ug, s). nat (ncount - int count))") auto

definition nr_time_step ::
  "(xreal list \<Rightarrow> xreal list \<Rightarrow> error + (xreal \<times> xreal list)) \<Rightarrow> xreal \<Rightarrow> int \<Rightarrow> xreal \<Rightarrow> nat
     \<Rightarrow> nat \<Rightarrow> nr_state \<Rightarrow> error + nr_state" where
  "nr_time_step pass toll ncount dt N it s =
     (let uo = nr_unnt s ! (it - 1); ug = nr_unnt s ! (it - 1) in
      case nr_while (pass uo) toll ncount it 0 ug s of Inl e \<Rightarrow> Inl e
      | Inr s1 \<Rightarrow>
          (let s2 = s1\<lparr>nr_err := Fin 1, nr_t := (nr_t s1)[it := nr_t s1 ! (it - 1) + dt]\<rparr> in
           case nr_un s2 of None \<Rightarrow> Inl UnboundLocalError
           | Some un \<Rightarrow>
               (case set_col N un of Inl e \<Rightarrow> Inl e
                | Inr c \<Rightarrow> Inr (s2\<lparr>nr_unnt := (nr_unnt s2)[it := c]\<rparr>))))"

definition nr_run ::
  "(xreal list \<Rightarrow> xreal list \<Rightarrow> error + (xreal \<times> xreal list)) \<Rightarrow> xreal list \<Rightarrow> xreal list
     \<Rightarrow> xreal \<Rightarrow> nat \<Rightarrow> xreal \<Rightarrow> int
     \<Rightarrow> error + (xreal list \<times> xreal list list \<times> xreal list \<times> nat list)" where
  "nr_run pass xx hh dt nt toll ncount =
     (if nt = 0 then Inl IndexError
      else (case set_col (length xx) hh of Inl e \<Rightarrow> Inl e
        | Inr c \<Rightarrow>
            (case for_range (nr_time_step pass toll ncount dt (length xx)) [1..<nt]
                    \<lparr>nr_err = Fin 1, nr_un = None,
                     nr_t = replicate nt (Fin 0),
                     nr_unnt = (replicate nt (replicate (length xx) (Fin 0)))[0 := c],
                     nr_errt = replicate nt (Fin 0),
                     nr_countt = replicate nt 0\<rparr> of
               Inl e \<Rightarrow> Inl e
             | Inr s \<Rightarrow> Inr (nr_t s, nr_unnt s, nr_errt s, nr_countt s))))"

definition Newton_Raphson ::
  "(xreal list list \<Rightarrow> error + xreal list list) \<Rightarrow> xreal list \<Rightarrow> xreal list \<Rightarrow> coef \<Rightarrow> xreal
     \<Rightarrow> nat \<Rightarrow> xreal \<Rightarrow> int \<Rightarrow> pad_mode \<Rightarrow> int \<times> int
     \<Rightarrow> error + (xreal list \<times> xreal list list \<times> xreal list \<times> nat list)" where
  "Newton_Raphson np_inv xx hh a dt nt toll ncount bnd_type bnd_limits =
     nr_run
       (\<lambda>uo ug. nr_pass np_inv toll bnd_type bnd_limits
                  (jacobian xx ug a dt) (NR_f xx ug uo a dt) ug)
       xx hh dt nt toll ncount"

definition Newton_Raphson_u ::
  "(xreal list list \<Rightarrow> error + xreal list list) \<Rightarrow> xreal list \<Rightarrow> xreal list \<Rightarrow> xreal
     \<Rightarrow> nat \<Rightarrow> xreal \<Rightarrow> int \<Rightarrow> pad_mode \<Rightarrow> int \<times> int
     \<Rightarrow> error + (xreal list \<times> xreal list list \<times> xreal list \<times> nat list)" where
  "Newton_Raphson_u np_inv xx hh dt nt toll ncount bnd_type bnd_limits =
     nr_run
       (\<lambda>uo ug. nr_pass np_inv toll bnd_type bnd_limits
                  (jacobian_u xx ug dt) (NR_f_u xx ug uo dt) ug)
       xx hh dt nt toll ncount"

section \<open>Hyman integrator\<close>

text \<open>
  \<open>dth\<close> and \<open>dtold\<close> are Python floats: dividing by a zero one raises
  \<open>ZeroDivisionError\<close>.
\<close>

definition py_div :: "xreal \<Rightarrow> xreal \<Rightarrow> error + xreal" where
  "py_div x y = (if y = Fin 0 then Inl ZeroDivisionError else Inr (x / y))"

definition hyman_corr :: "xreal list \<Rightarrow> xreal list \<Rightarrow> xreal list \<Rightarrow> xreal \<Rightarrow> error + xreal list" where
  "hyman_corr f fsav dfdt c2 = bcast (+) fsav (map (\<lambda>d. c2 * d) dfdt)"

definition hyman_pred ::
  "xreal list \<Rightarrow> xreal list \<Rightarrow> xreal list \<Rightarrow> xreal \<Rightarrow> xreal \<Rightarrow> xreal \<Rightarrow> xreal
     \<Rightarrow> error + (xreal list \<times> xreal list \<times> xreal list)" where
  "hyman_pred f fold_prev dfdt a1 b1 a2 b2 =
     (let fsav = f in
      case bcast (-) fold_prev f of Inl e \<Rightarrow> Inl e
      | Inr d1 \<Rightarrow>
     (case bcast (+) f (map (\<lambda>d. a1 * d) d1) of Inl e \<Rightarrow> Inl e
      | Inr s1 \<Rightarrow>
     (case bcast (+) s1 (map (\<lambda>d. b1 * d) dfdt) of Inl e \<Rightarrow> Inl e
      | Inr tempvar \<Rightarrow>
     (case bcast (-) fsav tempvar of Inl e \<Rightarrow> Inl e
      | Inr d2 \<Rightarrow>
     (case bcast (+) tempvar (map (\<lambda>d. a2 * d) d2) of Inl e \<Rightarrow> Inl e
      | Inr s2 \<Rightarrow>
     (case bcast (+) s2 (map (\<lambda>d. b2 * d) dfdt) of Inl e \<Rightarrow> Inl e
      | Inr fsav' \<Rightarrow> Inr (tempvar, fsav, fsav')))))))"

text \<open>
  \<open>hyman\<close> recognises its first call by the test \<open>np.any(fold) == None\<close>, with
  \<open>fold\<close> defaulting to \<open>None\<close>. For an array \<open>fold\<close>, \<open>np.any\<close> returns a numpy
  boolean, which is not equal to \<open>None\<close>. For \<open>fold = None\<close> the outcome depends on the
  numpy release, and the repository pins none: before numpy 2.0 \<open>np.any(None)\<close> is
  \<open>None\<close> and the test is true; from numpy 2.0 on \<open>np.any(None)\<close> is the numpy
  boolean false and the test is false. The release is a parameter of the model.
\<close>

datatype numpy = Numpy1 | Numpy2

definition any_is_None :: "numpy \<Rightarrow> xreal list option \<Rightarrow> bool" where
  "any_is_None np fold_prev = (case fold_prev of None \<Rightarrow> np = Numpy1 | Some v \<Rightarrow> False)"

text \<open>
  In the branch of the later calls, \<open>dth / dtold\<close> with \<open>dtold = None\<close> and
  \<open>fold - f\<close> (in \<open>hyman_pred\<close>) with \<open>fold = None\<close> raise \<open>TypeError\<close>.
\<close>

definition hyman ::
  "numpy \<Rightarrow> xreal list \<Rightarrow> xreal list \<Rightarrow> xreal \<Rightarrow> coef \<Rightarrow> xreal list option \<Rightarrow> xreal option
     \<Rightarrow> xreal
     \<Rightarrow> (xreal list \<Rightarrow> xreal list \<Rightarrow> error + xreal list) \<Rightarrow> pad_mode \<Rightarrow> int \<times> int
     \<Rightarrow> error + (xreal list \<times> xreal list \<times> xreal)" where
  "hyman np xx f dth a fold_prev dtold cfl_cut ddx bnd_type bnd_limits =
     (case step_adv_burgers xx f a (Fin (98/100)) ddx of Inl e \<Rightarrow> Inl e
      | Inr (dt, u1_temp) \<Rightarrow>
     (if any_is_None np fold_prev then
          (case bcast (+) (map (\<lambda>s. s / Fin 2) (map2 (+) (roll f 1) (roll f (- 1))))
                  (map (\<lambda>v. v * dth) u1_temp) of Inl e \<Rightarrow> Inl e
           | Inr f1 \<Rightarrow>
               (case bnd_fix bnd_type bnd_limits f1 of Inl e \<Rightarrow> Inl e
                | Inr f2 \<Rightarrow> Inr (f2, f, dth)))
      else
          (case dtold of None \<Rightarrow> Inl TypeError
           | Some dtold \<Rightarrow>
          (case py_div dth dtold of Inl e \<Rightarrow> Inl e
           | Inr ratio \<Rightarrow>
          (let a1 = ratio * ratio;
               b1 = dth * (Fin 1 + ratio) in
           case py_div (Fin 2 * (Fin 1 + ratio)) (Fin 2 + Fin 3 * ratio) of Inl e \<Rightarrow> Inl e
           | Inr a2 \<Rightarrow>
          (case py_div (dth * (Fin 1 + ratio * ratio)) (Fin 2 + Fin 3 * ratio) of Inl e \<Rightarrow> Inl e
           | Inr b2 \<Rightarrow>
          (case py_div (dth * (Fin 1 + ratio)) (Fin 2 + Fin 3 * ratio) of Inl e \<Rightarrow> Inl e
           | Inr c2 \<Rightarrow>
          (case fold_prev of None \<Rightarrow> Inl TypeError
           | Some fold_prev \<Rightarrow>
          (case hyman_pred f fold_prev u1_temp a1 b1 a2 b2 of Inl e \<Rightarrow> Inl e
           | Inr (f1, fold_new, fsav) \<Rightarrow>
          (case bnd_fix bnd_type bnd_limits f1 of Inl e \<Rightarrow> Inl e
           | Inr f2 \<Rightarrow>
          (case step_adv_burgers xx f2 a cfl_cut ddx of Inl e \<Rightarrow> Inl e
           | Inr (dt2, u1_temp2) \<Rightarrow>
          (case hyman_corr f2 fsav u1_temp2 c2 of Inl e \<Rightarrow> Inl e
           | Inr f3 \<Rightarrow>
          (case bnd_fix bnd_type bnd_limits f3 of Inl e \<Rightarrow> Inl e
           | Inr f4 \<Rightarrow> Inr (f4, fold_new, dth))))))))))))))"

section \<open>Well-formed inputs\<close>

text \<open>A per-point coefficient has one value for every grid point.\<close>

fun fits :: "coef \<Rightarrow> nat \<Rightarrow> bool" where
  "fits (Scalar s) N = True"
| "fits (PerPoint as) N = (length as = N)"

text \<open>A matrix of \<open>N\<close> rows of \<open>N\<close> entries.\<close>

definition square :: "nat \<Rightarrow> xreal list list \<Rightarrow> bool" where
  "square N J = (length J = N \<and> (\<forall>row\<in>set J. length row = N))"

text \<open>
  The result of \<open>k\<close> consecutive passes of a Newton iteration that starts from the
  guess \<open>ug\<close>: the error and the iterate of the last pass.
\<close>

fun nr_iterate ::
  "(xreal list \<Rightarrow> error + (xreal \<times> xreal list)) \<Rightarrow> nat \<Rightarrow> xreal list
     \<Rightarrow> error + (xreal \<times> xreal list)" where
  "nr_iterate pass 0 ug = Inr (Fin 1, ug)"
| "nr_iterate pass (Suc 0) ug = pass ug"
| "nr_iterate pass (Suc (Suc k)) ug =
     (case pass ug of Inl e \<Rightarrow> Inl e | Inr (err, un) \<Rightarrow> nr_iterate pass (Suc k) un)"

text \<open>
  The guess that the iteration of one time step holds after \<open>k\<close> passes, started from
  \<open>ug\<close>, none of which has brought the error below the tolerance, so that the loop
  goes on to the next pass if the cap permits.
\<close>

fun nr_guess ::
  "(xreal list \<Rightarrow> error + (xreal \<times> xreal list)) \<Rightarrow> xreal \<Rightarrow> nat \<Rightarrow> xreal list
     \<Rightarrow> xreal list option" where
  "nr_guess pass toll 0 ug = Some ug"
| "nr_guess pass toll (Suc k) ug =
     (case pass ug of Inl e \<Rightarrow> None
      | Inr (err, un) \<Rightarrow> if toll \<le> err then nr_guess pass toll k un else None)"

text \<open>
  The local variables of a run of \<open>nt\<close> steps at the moment the time step \<open>it\<close>
  begins, that is after the time steps \<open>1, \<dots>, it - 1\<close>.
\<close>

definition nr_before ::
  "(xreal list \<Rightarrow> xreal list \<Rightarrow> error + (xreal \<times> xreal list)) \<Rightarrow> xreal list \<Rightarrow> xreal list
     \<Rightarrow> xreal \<Rightarrow> nat \<Rightarrow> xreal \<Rightarrow> int \<Rightarrow> nat \<Rightarrow> error + nr_state" where
  "nr_before pass xx hh dt nt toll ncount it =
     (case set_col (length xx) hh of Inl e \<Rightarrow> Inl e
      | Inr c \<Rightarrow>
          for_range (nr_time_step pass toll ncount dt (length xx)) [1..<it]
            \<lparr>nr_err = Fin 1, nr_un = None,
             nr_t = replicate nt (Fin 0),
             nr_unnt = (replicate nt (replicate (length xx) (Fin 0)))[0 := c],
             nr_errt = replicate nt (Fin 0),
             nr_countt = replicate nt 0\<rparr>)"

text \<open>
  What a run of the solver records for the time step \<open>it\<close>: an iteration count between
  1 and the cap, the error and the iterate of the last of that many passes started from
  the previous column, the advanced time, and the reason the iteration stopped (the cap
  was reached, or the error was no longer at or above the tolerance).
\<close>

definition nr_recorded ::
  "(xreal list \<Rightarrow> xreal list \<Rightarrow> error + (xreal \<times> xreal list)) \<Rightarrow> xreal \<Rightarrow> xreal \<Rightarrow> int
     \<Rightarrow> xreal list \<times> xreal list list \<times> xreal list \<times> nat list \<Rightarrow> nat \<Rightarrow> bool" where
  "nr_recorded pass dt toll ncount res it =
     (case res of (t, unnt, errt, countt) \<Rightarrow>
        1 \<le> countt ! it \<and> int (countt ! it) \<le> ncount \<and>
        nr_iterate (pass (unnt ! (it - 1))) (countt ! it) (unnt ! (it - 1))
          = Inr (errt ! it, unnt ! it) \<and>
        t ! it = t ! (it - 1) + dt \<and>
        (int (countt ! it) = ncount \<or> \<not> toll \<le> errt ! it))"

section \<open>Array lemmas\<close>

lemma length_roll [simp]: "length (roll h k) = length h"
  by (simp add: roll_def)

lemma nth_roll:
  assumes "i < length h"
  shows "roll h k ! i = h ! nat ((int i - k) mod int (length h))"
proof -
  let ?n = "length h"
  have n: "0 < int ?n" using assms by auto
  have "roll h k ! i = h ! ((nat ((- k) mod int ?n) + i) mod ?n)"
    using assms by (auto simp: roll_def nth_rotate)
  also have "(nat ((- k) mod int ?n) + i) mod ?n = nat ((int i - k) mod int ?n)"
  proof -
    have "int ((nat ((- k) mod int ?n) + i) mod ?n) = ((- k) mod int ?n + int i) mod int ?n"
      using n by (simp add: zmod_int)
    also have "\<dots> = (int i - k) mod int ?n"
      by (simp add: mod_add_left_eq)
    finally show ?thesis by (metis nat_int)
  qed
  finally show ?thesis .
qed

lemma roll_map: "roll (map f h) k = map f (roll h k)"
  by (simp add: roll_def rotate_map)

lemma nth_roll_next:
  "i < length h \<Longrightarrow> roll h (- 1) ! i = h ! ((i + 1) mod length h)"
  by (simp add: nth_roll nat_mod_distrib nat_add_distrib flip: of_nat_Suc zmod_int)

lemma nth_roll_prev:
  assumes "i < length h"
  shows "roll h 1 ! i = h ! ((i + length h - 1) mod length h)"
proof -
  have "(int i - 1) mod int (length h) = int ((i + length h - 1) mod length h)"
  proof -
    have "int (i + length h - 1) = (int i - 1) + int (length h)" using assms by auto
    then have "int ((i + length h - 1) mod length h) = ((int i - 1) + int (length h)) mod int (length h)"
      by (simp add: zmod_int)
    then show ?thesis by simp
  qed
  then show ?thesis using assms by (simp add: nth_roll)
qed

lemma roll_0 [simp]: "roll h 0 = h"
  by (simp add: roll_def)

section \<open>Boundary fix lemmas\<close>

lemma bnd_retained:
  assumes "0 \<le> l" "0 \<le> r"
  shows "(if r > 0 then py_slice u l (- r) else py_slice_from u l)
           = take (length u - nat r - nat l) (drop (nat l) u)"
proof (cases "nat l < length u")
  case True
  then show ?thesis using assms
    by (auto simp: py_slice_def py_slice_from_def slice_bound_def Let_def min_def max_def
        nat_diff_distrib)
next
  case False
  then show ?thesis using assms
    by (auto simp: py_slice_def py_slice_from_def slice_bound_def Let_def min_def max_def)
qed

lemma bnd_fix_eq:
  assumes "0 \<le> l" "0 \<le> r"
  shows "bnd_fix mode (l, r) u = np_pad (take (length u - nat r - nat l) (drop (nat l) u)) (l, r) mode"
  by (simp only: bnd_fix_def Let_def fst_conv snd_conv bnd_retained[OF assms])

lemma bnd_fix_wrap:
  assumes "0 \<le> l" "0 \<le> r" "nat l + nat r < length u"
  shows "bnd_fix Wrap (l, r) u =
           Inr (map (\<lambda>k. take (length u - nat r - nat l) (drop (nat l) u)
                            ! nat ((int k - l) mod int (length u - nat r - nat l)))
                  [0..<length u])"
proof -
  have "nat l + (length u - nat r - nat l) + nat r = length u" using assms by linarith
  then show ?thesis using assms by (simp add: bnd_fix_eq np_pad_def Let_def)
qed

lemma bnd_fix_ok:
  assumes "0 \<le> l" "0 \<le> r" "nat l + nat r < length u"
  shows "\<exists>p. bnd_fix mode (l, r) u = Inr p \<and> length p = length u"
proof (cases mode)
  case Wrap
  then show ?thesis using bnd_fix_wrap[OF assms] by simp
next
  case Edge
  then show ?thesis using assms by (auto simp: bnd_fix_eq np_pad_def Let_def)
next
  case Constant
  then show ?thesis using assms by (auto simp: bnd_fix_eq np_pad_def Let_def)
qed

text \<open>The default policy of the upwind-biased steppers: entry 0 becomes a copy of the last.\<close>

lemma bnd_fix_wrap_1_0:
  assumes "2 \<le> length u"
  shows "bnd_fix Wrap (1, 0) u = Inr (u[0 := u ! (length u - 1)])"
proof -
  let ?N = "length u"
  have eq: "bnd_fix Wrap (1, 0) u =
      Inr (map (\<lambda>k. take (?N - 1) (drop 1 u) ! nat ((int k - 1) mod int (?N - 1))) [0..<?N])"
    using bnd_fix_wrap[of 1 0 u] assms by simp
  have "map (\<lambda>k. take (?N - 1) (drop 1 u) ! nat ((int k - 1) mod int (?N - 1))) [0..<?N]
          = u[0 := u ! (?N - 1)]"
  proof (rule nth_equalityI)
    show "length (map (\<lambda>k. take (?N - 1) (drop 1 u) ! nat ((int k - 1) mod int (?N - 1))) [0..<?N])
            = length (u[0 := u ! (?N - 1)])" by simp
  next
    fix k assume "k < length (map (\<lambda>k. take (?N - 1) (drop 1 u) ! nat ((int k - 1) mod int (?N - 1))) [0..<?N])"
    then have k: "k < ?N" by simp
    show "map (\<lambda>k. take (?N - 1) (drop 1 u) ! nat ((int k - 1) mod int (?N - 1))) [0..<?N] ! k
            = u[0 := u ! (?N - 1)] ! k"
    proof (cases "k = 0")
      case True
      have "(- 1) mod int (?N - 1) = int (?N - 1) - 1"
        using assms by (simp add: zmod_minus1 of_nat_diff)
      then have "nat ((int k - 1) mod int (?N - 1)) = ?N - 2"
        using True assms by (simp add: nat_diff_distrib)
      moreover have "Suc (?N - 2) = ?N - 1" using assms by linarith
      ultimately show ?thesis using True k assms by simp
    next
      case False
      then have "(int k - 1) mod int (?N - 1) = int k - 1"
        using k by (simp add: of_nat_diff)
      then have "nat ((int k - 1) mod int (?N - 1)) = k - 1"
        by (simp add: nat_diff_distrib)
      then show ?thesis using False k by simp
    qed
  qed
  then show ?thesis using eq by simp
qed

section \<open>Time loop lemmas\<close>

lemma for_range_append:
  "for_range body (xs @ ys) s =
     (case for_range body xs s of Inl e \<Rightarrow> Inl e | Inr s' \<Rightarrow> for_range body ys s')"
  by (induction xs arbitrary: s) (auto split: sum.splits)

lemma set_col_length: "set_col N v = Inr c \<Longrightarrow> length c = N"
  by (auto simp: set_col_def split: if_splits)

lemma set_col_same [simp]: "length v = N \<Longrightarrow> set_col N v = Inr v"
  by (simp add: set_col_def)

lemma store_step_Inr:
  assumes "store_step scheme N i s = Inr s'"
  shows "\<exists>dt v c. scheme (snd s ! i) = Inr (dt, v) \<and> set_col N v = Inr c \<and>
           s' = ((fst s)[i + 1 := fst s ! i + dt], (snd s)[i + 1 := c])"
  using assms by (auto simp: store_step_def split: sum.splits prod.splits)

text \<open>
  What \<open>n\<close> passes of the loop leave behind: the shapes, entry 0 and every entry beyond
  \<open>n\<close> are untouched, and each column up to \<open>n\<close> is the scheme's result on its
  predecessor.
\<close>

lemma time_loop_invariant:
  assumes "for_range (store_step scheme N) [0..<n] s0 = Inr s"
    and "n < length (fst s0)" "n < length (snd s0)"
  shows "length (fst s) = length (fst s0) \<and> length (snd s) = length (snd s0) \<and>
         fst s ! 0 = fst s0 ! 0 \<and> snd s ! 0 = snd s0 ! 0 \<and>
         (\<forall>k>n. fst s ! k = fst s0 ! k \<and> snd s ! k = snd s0 ! k) \<and>
         (\<forall>i<n. \<exists>dt v. scheme (snd s ! i) = Inr (dt, v) \<and>
                    set_col N v = Inr (snd s ! (i + 1)) \<and>
                    fst s ! (i + 1) = fst s ! i + dt)"
  using assms
proof (induction n arbitrary: s)
  case 0
  then show ?case by simp
next
  case (Suc n)
  from Suc.prems(1) obtain s1 where s1: "for_range (store_step scheme N) [0..<n] s0 = Inr s1"
    and st: "store_step scheme N n s1 = Inr s"
    by (auto simp: for_range_append split: sum.splits)
  have ih: "length (fst s1) = length (fst s0) \<and> length (snd s1) = length (snd s0) \<and>
         fst s1 ! 0 = fst s0 ! 0 \<and> snd s1 ! 0 = snd s0 ! 0 \<and>
         (\<forall>k>n. fst s1 ! k = fst s0 ! k \<and> snd s1 ! k = snd s0 ! k) \<and>
         (\<forall>i<n. \<exists>dt v. scheme (snd s1 ! i) = Inr (dt, v) \<and>
                    set_col N v = Inr (snd s1 ! (i + 1)) \<and>
                    fst s1 ! (i + 1) = fst s1 ! i + dt)"
    using Suc.IH[OF s1] Suc.prems by simp
  from store_step_Inr[OF st] obtain dt v c where
    sch: "scheme (snd s1 ! n) = Inr (dt, v)" and col: "set_col N v = Inr c" and
    s: "s = ((fst s1)[n + 1 := fst s1 ! n + dt], (snd s1)[n + 1 := c])"
    by blast
  have len: "n + 1 < length (fst s1)" "n + 1 < length (snd s1)"
    using ih Suc.prems by simp_all
  have steps: "\<exists>dt v. scheme (snd s ! i) = Inr (dt, v) \<and>
                    set_col N v = Inr (snd s ! (i + 1)) \<and>
                    fst s ! (i + 1) = fst s ! i + dt" if "i < Suc n" for i
  proof (cases "i = n")
    case True
    then show ?thesis using sch col len by (simp add: s)
  next
    case False
    then have "i < n" using that by simp
    then show ?thesis using ih by (simp add: s)
  qed
  show ?case using ih steps by (auto simp: s)
qed

text \<open>
  The loop cannot fail when the scheme succeeds, with a field of the grid's width, on
  every field of that width.
\<close>

lemma time_loop_total:
  assumes ok: "\<And>u. length u = N \<Longrightarrow> \<exists>dt v. scheme u = Inr (dt, v) \<and> length v = N"
    and "\<forall>c\<in>set (snd s0). length c = N" "n < length (snd s0)"
  shows "\<exists>s. for_range (store_step scheme N) [0..<n] s0 = Inr s \<and>
              (\<forall>c\<in>set (snd s). length c = N) \<and> length (snd s) = length (snd s0)"
  using assms(2,3)
proof (induction n)
  case 0
  then show ?case by simp
next
  case (Suc n)
  then obtain s1 where s1: "for_range (store_step scheme N) [0..<n] s0 = Inr s1"
    and cols: "\<forall>c\<in>set (snd s1). length c = N" and len: "length (snd s1) = length (snd s0)"
    by auto
  have "length (snd s1 ! n) = N" using cols len Suc.prems by simp
  from ok[OF this] obtain dt v where sch: "scheme (snd s1 ! n) = Inr (dt, v)" "length v = N"
    by blast
  then have st: "store_step scheme N n s1
       = Inr ((fst s1)[n + 1 := fst s1 ! n + dt], (snd s1)[n + 1 := v])"
    by (simp add: store_step_def)
  have "\<forall>c\<in>set ((snd s1)[n + 1 := v]). length c = N"
    using cols sch(2) by (auto dest: subsetD[OF set_update_subset_insert])
  then show ?case using s1 st len by (simp add: for_range_append)
qed

lemma init_series_Inr:
  assumes "0 < nt" "length hh = length xx"
  shows "init_series xx hh nt =
           Inr (replicate nt (Fin 0), (replicate nt (replicate (length xx) (Fin 0)))[0 := hh])"
  using assms by (simp add: init_series_def)

lemma init_series_cols:
  assumes "init_series xx hh nt = Inr s"
  shows "length (fst s) = nt \<and> length (snd s) = nt \<and> (\<forall>c\<in>set (snd s). length c = length xx) \<and> 0 < nt"
proof -
  from assms obtain c where c: "set_col (length xx) hh = Inr c" and
    s: "s = (replicate nt (Fin 0), (replicate nt (replicate (length xx) (Fin 0)))[0 := c])" and "0 < nt"
    by (auto simp: init_series_def split: if_splits sum.splits)
  have "length c = length xx" using c by (rule set_col_length)
  then have "\<forall>d\<in>set ((replicate nt (replicate (length xx) (Fin 0)))[0 := c]). length d = length xx"
    by (auto dest: subsetD[OF set_update_subset_insert])
  then show ?thesis using s \<open>0 < nt\<close> by simp
qed

section \<open>Shapes of the right-hand sides\<close>

lemma bcast_same: "length xs = length ys \<Longrightarrow> bcast f xs ys = Inr (map2 f xs ys)"
  by (simp add: bcast_def)

lemma ddx_of_ok:
  assumes "length hh = length xx"
  shows "\<exists>d. ddx_of sel xx hh = Inr d \<and> length d = length xx"
  using assms by (cases sel) (simp_all add: deriv_dnw_def deriv_upw_def deriv_cent_def bcast_same)

lemma gradient_ok: "2 \<le> length x \<Longrightarrow> \<exists>g. gradient x = Inr g \<and> length g = length x"
  by (simp add: gradient_def Let_def)

lemma arr_coef_ok:
  assumes "fits a (length xs)"
  shows "\<exists>q. arr_coef f xs (coef_map g a) = Inr q \<and> length q = length xs"
  using assms by (cases a) (simp_all add: bcast_same)

lemma coef_arr_ok:
  assumes "fits a (length xs)"
  shows "\<exists>q. coef_arr f (coef_map g a) xs = Inr q \<and> length q = length xs"
  using assms by (cases a) (simp_all add: bcast_same)

lemma np_min_ok: "xs \<noteq> [] \<Longrightarrow> \<exists>m. np_min xs = Inr m"
  by (cases xs) (simp_all add: np_min_def)

lemma cfl_adv_burger_ok:
  assumes "2 \<le> length x" "fits a (length x)"
  shows "\<exists>c. cfl_adv_burger a x = Inr c"
proof -
  from gradient_ok[OF assms(1)] obtain g where g: "gradient x = Inr g" "length g = length x"
    by blast
  from arr_coef_ok[of a g "(/)" abs] assms(2) g(2)
  obtain q where q: "arr_coef (/) g (coef_map abs a) = Inr q" "length q = length g" by auto
  have "q \<noteq> []" using q(2) g(2) assms(1) by auto
  from np_min_ok[OF this] show ?thesis using g q by (simp add: cfl_adv_burger_def)
qed

lemma step_adv_burgers_ok:
  assumes "2 \<le> length xx" "fits a (length xx)" "length u = length xx"
  shows "\<exists>dt rhs. step_adv_burgers xx u a cfl_cut (ddx_of sel) = Inr (dt, rhs) \<and>
                   length rhs = length xx"
proof -
  from cfl_adv_burger_ok[OF assms(1,2)] obtain c where c: "cfl_adv_burger a xx = Inr c" by blast
  from ddx_of_ok[OF assms(3)] obtain d where d: "ddx_of sel xx u = Inr d" "length d = length xx"
    by blast
  from coef_arr_ok[of a d "(*)" uminus] assms(2) d(2)
  obtain rhs where r: "coef_arr (*) (coef_map uminus a) d = Inr rhs" "length rhs = length d" by auto
  show ?thesis using c d r by (simp add: step_adv_burgers_def)
qed

lemma adv_burgers_next_ok:
  assumes "2 \<le> length xx" "fits a (length xx)" "length u = length xx"
  shows "\<exists>dt v. adv_burgers_next xx a cfl_cut (ddx_of sel) u = Inr (dt, v) \<and> length v = length xx"
proof -
  from step_adv_burgers_ok[OF assms] obtain dt rhs where
    "step_adv_burgers xx u a cfl_cut (ddx_of sel) = Inr (dt, rhs)" "length rhs = length xx"
    by blast
  then show ?thesis using assms(3) by (simp add: adv_burgers_next_def bcast_same)
qed

lemma with_bnd_ok:
  assumes "r = Inr (dt, v)" "0 \<le> l" "0 \<le> rr" "nat l + nat rr < length v"
  shows "\<exists>p. with_bnd bnd_type (l, rr) r = Inr (dt, p) \<and> length p = length v"
  using bnd_fix_ok[OF assms(2,3,4), of bnd_type] assms(1) by (auto simp: with_bnd_def)

lemma with_bnd_Inr:
  assumes "with_bnd bnd_type bl r = Inr (dt, p)"
  shows "\<exists>v. r = Inr (dt, v) \<and> bnd_fix bnd_type bl v = Inr p"
  using assms by (auto simp: with_bnd_def split: sum.splits prod.splits)

lemma adv_burgers_next_Inr:
  assumes "adv_burgers_next xx a cfl_cut ddx u = Inr (dt, v)"
  shows "\<exists>rhs. step_adv_burgers xx u a cfl_cut ddx = Inr (dt, rhs) \<and>
               bcast (+) u (map (\<lambda>r. r * dt) rhs) = Inr v"
  using assms by (auto simp: adv_burgers_next_def split: sum.splits prod.splits)

section \<open>Lax stepper lemmas\<close>

lemma xreal_mult_commute: "(a::xreal) * b = b * a"
  by (cases a; cases b) auto

lemma store_step_cols:
  assumes "store_step scheme N i s = Inr s'" "\<forall>c\<in>set (snd s). length c = N"
  shows "(\<forall>c\<in>set (snd s'). length c = N) \<and> length (snd s') = length (snd s)"
proof -
  from store_step_Inr[OF assms(1)] obtain dt v c where
    c: "set_col N v = Inr c" and s': "s' = ((fst s)[i + 1 := fst s ! i + dt], (snd s)[i + 1 := c])"
    by blast
  have "length c = N" using c by (rule set_col_length)
  then show ?thesis using assms(2) s' by (auto dest: subsetD[OF set_update_subset_insert])
qed

lemma store_steps_cong:
  assumes eq: "\<And>u. length u = N \<Longrightarrow> sch1 u = sch2 u"
    and "\<forall>c\<in>set (snd s). length c = N" "\<forall>i\<in>set js. i < length (snd s)"
  shows "for_range (store_step sch1 N) js s = for_range (store_step sch2 N) js s"
  using assms(2,3)
proof (induction js arbitrary: s)
  case Nil
  then show ?case by simp
next
  case (Cons i js)
  have "length (snd s ! i) = N" using Cons.prems by simp
  then have same: "store_step sch1 N i s = store_step sch2 N i s"
    by (simp add: store_step_def eq)
  show ?case
  proof (cases "store_step sch2 N i s")
    case (Inl e)
    then show ?thesis using same by simp
  next
    case (Inr s')
    from store_step_cols[OF Inr Cons.prems(1)] Cons.prems(2)
    have "\<forall>c\<in>set (snd s'). length c = N" "\<forall>i\<in>set js. i < length (snd s')" by auto
    from Cons.IH[OF this] show ?thesis using same Inr by simp
  qed
qed

lemma Lax_uadv_next_eq:
  assumes "length u = length xx"
  shows "Lax_uadv_next xx cfl_cut (ddx_of sel) u =
           (case cfl_adv_burger (PerPoint u) xx of Inl e \<Rightarrow> Inl e
            | Inr dt \<Rightarrow> Inr (dt, Lax_u_next xx u dt))"
proof -
  from ddx_of_ok[OF assms] obtain d where "ddx_of sel xx u = Inr d" "length d = length xx"
    by blast
  then show ?thesis using assms
    by (simp add: Lax_uadv_next_def step_uadv_burgers_def Let_def bcast_same split: sum.splits)
qed

lemma Lax_u_next_nth:
  assumes "length u = length xx" "j < length xx"
  shows "Lax_u_next xx u dt ! j =
           Fin (1/2) * (u ! ((j + 1) mod length xx) + u ! ((j + length xx - 1) mod length xx))
           - (dt * u ! j / (xx ! ((j + 1) mod length xx) - xx ! ((j + length xx - 1) mod length xx)))
             * (u ! ((j + 1) mod length xx) - u ! ((j + length xx - 1) mod length xx))"
  using assms
  by (simp add: Lax_u_next_def nth_roll_next nth_roll_prev xreal_mult_commute[of dt])

lemma Lax_uadv_next_ok:
  assumes "2 \<le> length xx" "length u = length xx"
  shows "\<exists>dt. Lax_uadv_next xx cfl_cut (ddx_of sel) u = Inr (dt, Lax_u_next xx u dt) \<and>
              length (Lax_u_next xx u dt) = length xx"
proof -
  have "fits (PerPoint u) (length xx)" using assms(2) by simp
  from cfl_adv_burger_ok[OF assms(1) this] obtain dt where
    "cfl_adv_burger (PerPoint u) xx = Inr dt" by blast
  then show ?thesis using assms(2) by (simp add: Lax_uadv_next_eq Lax_u_next_def)
qed

lemma Lax_uadv_next_Inr:
  assumes "Lax_uadv_next xx cfl_cut ddx u = Inr (dt, v)"
  shows "\<exists>rhs. step_uadv_burgers xx u cfl_cut ddx = Inr (dt, rhs) \<and> v = Lax_u_next xx u dt"
  using assms by (auto simp: Lax_uadv_next_def split: sum.splits prod.splits)

section \<open>Grids\<close>

lemma gradient_increasing:
  assumes "sorted_wrt (<) xs" "2 \<le> length xs"
  shows "\<exists>gs. gradient (map Fin xs) = Inr (map Fin gs) \<and> length gs = length xs \<and>
              (\<forall>g\<in>set gs. 0 < g)"
proof -
  let ?n = "length xs"
  define gf where "gf = (\<lambda>i. if i = 0 then xs ! 1 - xs ! 0
                else if i = ?n - 1 then xs ! (?n - 1) - xs ! (?n - 2)
                else (xs ! (i + 1) - xs ! (i - 1)) / 2)"
  have less: "xs ! i < xs ! j" if "i < j" "j < ?n" for i j
    using sorted_wrt_nth_less[OF assms(1) that] .
  have "gradient (map Fin xs) = Inr (map (\<lambda>i. Fin (gf i)) [0..<?n])"
    using assms(2) by (auto simp: gradient_def Let_def gf_def)
  then have eq: "gradient (map Fin xs) = Inr (map Fin (map gf [0..<?n]))"
    by (simp add: comp_def)
  have pos: "0 < gf i" if "i < ?n" for i
  proof -
    have "xs ! 0 < xs ! 1" using less[of 0 1] assms(2) by simp
    moreover have "xs ! (?n - 2) < xs ! (?n - 1)" using less[of "?n - 2" "?n - 1"] assms(2) by simp
    moreover have "xs ! (i - 1) < xs ! (i + 1)" if "i \<noteq> ?n - 1"
      using less[of "i - 1" "i + 1"] that \<open>i < ?n\<close> by simp
    ultimately show ?thesis by (simp add: gf_def)
  qed
  have "\<forall>g\<in>set (map gf [0..<?n]). 0 < g" using pos by auto
  then show ?thesis using eq by (intro exI[of _ "map gf [0..<?n]"]) simp
qed

lemma foldl_minimum_PInf:
  "\<forall>y\<in>set ys. y = PInf \<Longrightarrow> foldl minimum PInf ys = PInf"
  by (induction ys) auto

lemma np_min_all_PInf:
  assumes "q \<noteq> []" "\<forall>y\<in>set q. y = PInf"
  shows "np_min q = Inr PInf"
  using assms by (cases q) (simp_all add: np_min_def foldl_minimum_PInf)

section \<open>Hyman integrator lemmas\<close>

lemma hyman_pred_ok:
  assumes "length fold_prev = length f" "length dfdt = length f"
  shows "\<exists>f1 fsav. hyman_pred f fold_prev dfdt a1 b1 a2 b2 = Inr (f1, f, fsav) \<and>
                   length f1 = length f \<and> length fsav = length f"
  using assms by (simp add: hyman_pred_def Let_def bcast_same)

lemma hyman_corr_ok:
  assumes "length dfdt = length fsav"
  shows "\<exists>f3. hyman_corr f fsav dfdt c2 = Inr f3 \<and> length f3 = length fsav"
  using assms by (simp add: hyman_corr_def bcast_same)

lemma hyman_first_call:
  assumes "2 \<le> length xx" "length f = length xx" "fits a (length xx)"
    and "0 \<le> l" "0 \<le> r" "nat l + nat r < length xx"
  shows "\<exists>f1. hyman Numpy1 xx f dth a None dtold cfl_cut (ddx_of sel) bnd_type (l, r)
                = Inr (f1, f, dth) \<and>
              length f1 = length f"
proof -
  from step_adv_burgers_ok[OF assms(1,3,2)] obtain dt u1 where
    st: "step_adv_burgers xx f a (Fin (98/100)) (ddx_of sel) = Inr (dt, u1)" "length u1 = length xx"
    by blast
  let ?c = "map2 (+) (map (\<lambda>s. s / Fin 2) (map2 (+) (roll f 1) (roll f (- 1)))) (map (\<lambda>v. v * dth) u1)"
  have bc: "bcast (+) (map (\<lambda>s. s / Fin 2) (map2 (+) (roll f 1) (roll f (- 1)))) (map (\<lambda>v. v * dth) u1)
              = Inr ?c"
    using st(2) assms(2) by (simp add: bcast_same)
  have len: "length ?c = length xx" using st(2) assms(2) by simp
  then have "nat l + nat r < length ?c" using assms(6) by simp
  from bnd_fix_ok[OF assms(4,5) this, of bnd_type] obtain p where
    p: "bnd_fix bnd_type (l, r) ?c = Inr p" "length p = length ?c" by blast
  show ?thesis using st(1) bc p len assms(2) by (simp add: hyman_def any_is_None_def)
qed

lemma hyman_next_call:
  assumes "2 \<le> length xx" "length f = length xx" "length fold_prev = length xx"
    and "fits a (length xx)" "0 < d" "0 < dold"
    and "0 \<le> l" "0 \<le> r" "nat l + nat r < length xx"
  shows "\<exists>f4. hyman np xx f (Fin d) a (Some fold_prev) (Some (Fin dold)) cfl_cut (ddx_of sel)
                 bnd_type (l, r) = Inr (f4, f, Fin d) \<and> length f4 = length f"
proof -
  let ?N = "length xx"
  from step_adv_burgers_ok[OF assms(1,4,2)] obtain dt u1 where
    st: "step_adv_burgers xx f a (Fin (98/100)) (ddx_of sel) = Inr (dt, u1)" "length u1 = ?N"
    by blast
  let ?ratio = "Fin (d / dold)"
  have ratio: "py_div (Fin d) (Fin dold) = Inr ?ratio"
    using assms(6) by (simp add: py_div_def)
  have den: "Fin 2 + Fin 3 * ?ratio = Fin (2 + 3 * (d / dold))" by simp
  have dpos: "0 < 2 + 3 * (d / dold)" using assms(5,6) by (simp add: add_pos_pos)
  then have dne: "Fin (2 + 3 * (d / dold)) \<noteq> Fin 0" by simp
  obtain a2 where a2: "py_div (Fin 2 * (Fin 1 + ?ratio)) (Fin 2 + Fin 3 * ?ratio) = Inr a2"
    using dne by (simp add: py_div_def den del: xreal.inject)
  obtain b2 where b2: "py_div (Fin d * (Fin 1 + ?ratio * ?ratio)) (Fin 2 + Fin 3 * ?ratio) = Inr b2"
    using dne by (simp add: py_div_def den del: xreal.inject)
  obtain c2 where c2: "py_div (Fin d * (Fin 1 + ?ratio)) (Fin 2 + Fin 3 * ?ratio) = Inr c2"
    using dne by (simp add: py_div_def den del: xreal.inject)
  from hyman_pred_ok[of fold_prev f u1 "?ratio * ?ratio" "Fin d * (Fin 1 + ?ratio)" a2 b2]
  obtain f1 fsav where
    pr: "hyman_pred f fold_prev u1 (?ratio * ?ratio) (Fin d * (Fin 1 + ?ratio)) a2 b2 = Inr (f1, f, fsav)"
    and l1: "length f1 = ?N" "length fsav = ?N"
    using assms(2,3) st(2) by auto
  have "nat l + nat r < length f1" using assms(9) l1 by simp
  from bnd_fix_ok[OF assms(7,8) this, of bnd_type] obtain f2 where
    f2: "bnd_fix bnd_type (l, r) f1 = Inr f2" "length f2 = ?N" using l1 by auto
  from step_adv_burgers_ok[OF assms(1,4) f2(2)] obtain dt2 u2 where
    st2: "step_adv_burgers xx f2 a cfl_cut (ddx_of sel) = Inr (dt2, u2)" "length u2 = ?N"
    by blast
  from hyman_corr_ok[of u2 fsav f2 c2] obtain f3 where
    f3: "hyman_corr f2 fsav u2 c2 = Inr f3" "length f3 = ?N" using st2(2) l1 by auto
  have "nat l + nat r < length f3" using assms(9) f3(2) by simp
  from bnd_fix_ok[OF assms(7,8) this, of bnd_type] obtain f4 where
    f4: "bnd_fix bnd_type (l, r) f3 = Inr f4" "length f4 = ?N" using f3(2) by auto
  show ?thesis
    using st(1) ratio a2 b2 c2 pr f2(1) st2(1) f3(1) f4 assms(2)
    by (simp add: hyman_def any_is_None_def Let_def)
qed

text \<open>
  With numpy before 2.0: a first call without prior state followed by a call that is
  given the state returned by the first. Both return a field of the input's length.
\<close>

lemma hyman_two_calls_numpy1:
  assumes "2 \<le> length xx" "length f = length xx" "length g = length xx" "fits a (length xx)"
    and "0 < d1" "0 < d2" "0 \<le> l" "0 \<le> r" "nat l + nat r < length xx"
  shows "\<exists>f1 fold1 dtold1.
           hyman Numpy1 xx f (Fin d1) a None None cfl_cut (ddx_of sel) bnd_type (l, r)
             = Inr (f1, fold1, dtold1) \<and> length f1 = length f \<and>
           (\<exists>f2 fold2 dtold2.
              hyman Numpy1 xx g (Fin d2) a (Some fold1) (Some dtold1) cfl_cut (ddx_of sel) bnd_type (l, r)
                = Inr (f2, fold2, dtold2) \<and> length f2 = length g)"
proof -
  from hyman_first_call[OF assms(1,2,4,7,8,9)] obtain f1 where
    c1: "hyman Numpy1 xx f (Fin d1) a None None cfl_cut (ddx_of sel) bnd_type (l, r) = Inr (f1, f, Fin d1)"
    "length f1 = length f" by blast
  from hyman_next_call[OF assms(1,3,2,4,6,5,7,8,9)] obtain f2 where
    "hyman Numpy1 xx g (Fin d2) a (Some f) (Some (Fin d1)) cfl_cut (ddx_of sel) bnd_type (l, r)
       = Inr (f2, g, Fin d2)" "length f2 = length g" by blast
  then show ?thesis using c1 by blast
qed

text \<open>
  With numpy 2.0 or later, a call without prior state never returns: either the first
  \<open>step_adv_burgers\<close> raises, or \<open>dth / dtold\<close> raises \<open>TypeError\<close>.
\<close>

lemma hyman_without_state_numpy2:
  "hyman Numpy2 xx f dth a None None cfl_cut ddx bnd_type bnd_limits =
     (case step_adv_burgers xx f a (Fin (98/100)) ddx of Inl e \<Rightarrow> Inl e
      | Inr r \<Rightarrow> Inl TypeError)"
  by (simp add: hyman_def any_is_None_def split: sum.splits prod.splits)

section \<open>Newton iteration lemmas\<close>

lemma for_range_invariant:
  assumes "\<And>i s. i \<in> set js \<Longrightarrow> P s \<Longrightarrow> \<exists>s'. body i s = Inr s' \<and> P s'" "P s"
  shows "\<exists>s'. for_range body js s = Inr s' \<and> P s'"
  using assms
proof (induction js arbitrary: s)
  case Nil
  then show ?case by simp
next
  case (Cons i js)
  from Cons.prems(1)[of i s] Cons.prems(2) obtain s1 where s1: "body i s = Inr s1" "P s1" by auto
  have "\<exists>s'. for_range body js s1 = Inr s' \<and> P s'"
    by (rule Cons.IH[OF _ s1(2)]) (use Cons.prems(1) in auto)
  then show ?case using s1(1) by simp
qed

lemma square_mat_set:
  assumes "square N J"
  shows "square N (mat_set J i j v)"
proof (cases "i < length J")
  case True
  then have "length (J ! i) = N" using assms by (simp add: square_def)
  then show ?thesis using assms
    by (auto simp: square_def mat_set_def dest!: subsetD[OF set_update_subset_insert])
next
  case False
  then have "J[i := (J ! i)[j := v]] = J" by (simp add: list_update_beyond)
  then show ?thesis using assms by (simp add: mat_set_def)
qed

lemma square_zeros: "square N (replicate N (replicate N (Fin 0)))"
  by (simp add: square_def)

lemma jacobian_ok:
  assumes "2 \<le> length xx"
  shows "\<exists>J. jacobian xx un (Scalar a) dt = Inr J \<and> square (length xx) J"
proof -
  have n: "\<not> length xx < 2" using assms by simp
  show ?thesis unfolding jacobian_def Let_def if_not_P[OF n]
    by (rule for_range_invariant) (auto simp: square_zeros intro!: square_mat_set)
qed

lemma jacobian_u_ok:
  assumes "2 \<le> length xx" "length un = length xx"
  shows "\<exists>J. jacobian_u xx un dt = Inr J \<and> square (length xx) J"
proof -
  have n: "\<not> length xx < 2" using assms by simp
  show ?thesis unfolding jacobian_u_def Let_def if_not_P[OF n]
    by (rule for_range_invariant) (use assms(2) in \<open>auto simp: square_zeros intro!: square_mat_set\<close>)
qed

lemma NR_f_ok:
  assumes "2 \<le> length xx" "length ug = length uo"
  shows "\<exists>ff. NR_f xx ug uo (Scalar a) dt = Inr ff \<and> length ff = length uo"
  using assms by (simp add: NR_f_def Let_def bcast_same)

lemma NR_f_u_ok:
  assumes "2 \<le> length xx" "length ug = length uo"
  shows "\<exists>ff. NR_f_u xx ug uo dt = Inr ff \<and> length ff = length uo"
  using assms by (simp add: NR_f_u_def Let_def bcast_same)

lemma np_max_ok: "xs \<noteq> [] \<Longrightarrow> \<exists>m. np_max xs = Inr m"
  by (cases xs) (simp_all add: np_max_def)

text \<open>
  A pass on a guess of the grid's width fails only where the inversion of its Jacobian
  fails, and otherwise returns an iterate of that width.
\<close>

lemma nr_pass_ok:
  assumes shape: "\<And>K. np_inv J = Inr K \<Longrightarrow> square N K"
    and jac: "jac = Inr J" "square N J" and ff: "ff1 = Inr ff" "length ff = N"
    and "length ug = N" "0 < N" "0 \<le> l" "0 \<le> r" "nat l + nat r < N"
  shows "(\<exists>e. nr_pass np_inv toll bnd_type (l, r) jac ff1 ug = Inl e \<and> np_inv J = Inl e) \<or>
         (\<exists>err un. nr_pass np_inv toll bnd_type (l, r) jac ff1 ug = Inr (err, un) \<and> length un = N)"
proof (cases "np_inv J")
  case (Inl e)
  then show ?thesis using jac(1) ff(1) by (auto simp: nr_pass_def)
next
  case (Inr K)
  from shape[OF Inr] have K: "length K = N" "\<forall>row\<in>set K. length row = N"
    by (auto simp: square_def)
  then have mm: "matmul K ff = Inr (map (\<lambda>row. foldl (+) (Fin 0) (map2 (*) row ff)) K)"
    using ff(2) by (simp add: matmul_def list_all_iff)
  let ?mv = "map (\<lambda>row. foldl (+) (Fin 0) (map2 (*) row ff)) K"
  let ?un = "map2 (-) ug ?mv"
  have un: "bcast (-) ug ?mv = Inr ?un" "length ?un = N" using K(1) assms(6) by (simp_all add: bcast_same)
  let ?d = "map2 (-) ?un ug"
  have d: "bcast (-) ?un ug = Inr ?d" using un(2) assms(6) by (simp add: bcast_same)
  have "map2 (/) (map abs ?d) (map (\<lambda>v. \<bar>v\<bar> + toll) ?un) \<noteq> []"
    using un(2) assms(6,7) K(1) by (auto simp: zip_eq_Nil_iff)
  from np_max_ok[OF this] obtain err where
    err: "np_max (map2 (/) (map abs ?d) (map (\<lambda>v. \<bar>v\<bar> + toll) ?un)) = Inr err" by blast
  have "nat l + nat r < length ?un" using un(2) assms(10) by simp
  from bnd_fix_ok[OF assms(8,9) this, of bnd_type] obtain p where
    p: "bnd_fix bnd_type (l, r) ?un = Inr p" "length p = N" using un(2) by auto
  have "nr_pass np_inv toll bnd_type (l, r) jac ff1 ug = Inr (err, p)"
    unfolding nr_pass_def using jac(1) ff(1) Inr mm un(1) d err p(1) by simp
  then show ?thesis using p(2) by blast
qed

section \<open>Newton loop lemmas\<close>

lemma nr_iterate_Suc:
  assumes "pass ug = Inr (err1, un1)" "0 < k"
  shows "nr_iterate pass (Suc k) ug = nr_iterate pass k un1"
  using assms by (cases k) simp_all

lemma nr_guess_Suc:
  assumes "pass ug = Inr (err1, un1)" "toll \<le> err1"
  shows "nr_guess pass toll (Suc k) ug = nr_guess pass toll k un1"
  using assms by simp

text \<open>
  The iteration of one time step, entered with the counter below the cap and the error
  at or above the tolerance. Either a pass raises, on a guess reached after passes that
  all missed the tolerance and with the counter still below the cap, or the iteration
  ends after at least one pass and leaves the record of its last pass. \<open>bad ug e\<close>
  stands for what is known of a pass that raises \<open>e\<close> on the guess \<open>ug\<close>.
\<close>

lemma nr_while_result:
  assumes ok: "\<And>ug. length ug = N \<Longrightarrow>
      (\<exists>e. pass ug = Inl e \<and> bad ug e) \<or>
      (\<exists>err un. pass ug = Inr (err, un) \<and> length un = N)"
    and "length ug = N" "toll \<le> nr_err s" "int count < ncount"
  shows "(\<exists>e k ug'. nr_while pass toll ncount it count ug s = Inl e \<and>
            int (count + k) < ncount \<and> nr_guess pass toll k ug = Some ug' \<and> bad ug' e) \<or>
         (\<exists>k err un. 0 < k \<and> int (count + k) \<le> ncount \<and>
            nr_iterate pass k ug = Inr (err, un) \<and> length un = N \<and>
            (int (count + k) = ncount \<or> \<not> toll \<le> err) \<and>
            nr_while pass toll ncount it count ug s
              = Inr (s\<lparr>nr_err := err, nr_un := Some un,
                       nr_errt := (nr_errt s)[it := err],
                       nr_countt := (nr_countt s)[it := count + k]\<rparr>))"
  using assms(2-)
proof (induction "nat (ncount - int count)" arbitrary: count ug s rule: less_induct)
  case less
  have unfold: "nr_while pass toll ncount it count ug s =
        (case pass ug of Inl e \<Rightarrow> Inl e
         | Inr (err, un) \<Rightarrow>
             nr_while pass toll ncount it (count + 1) un
               (s\<lparr>nr_err := err, nr_un := Some un,
                  nr_errt := (nr_errt s)[it := err],
                  nr_countt := (nr_countt s)[it := count + 1]\<rparr>))"
    using less.prems(2,3) by (subst nr_while.simps) simp
  from ok[OF less.prems(1)] show ?case
  proof
    assume "\<exists>e. pass ug = Inl e \<and> bad ug e"
    then obtain e where e: "pass ug = Inl e" "bad ug e" by blast
    have "nr_while pass toll ncount it count ug s = Inl e" using unfold e(1) by simp
    moreover have "int (count + 0) < ncount" using less.prems(3) by simp
    moreover have "nr_guess pass toll 0 ug = Some ug" by simp
    ultimately show ?thesis using e(2) by blast
  next
    assume "\<exists>err un. pass ug = Inr (err, un) \<and> length un = N"
    then obtain err1 un1 where p1: "pass ug = Inr (err1, un1)" and l1: "length un1 = N" by blast
    let ?s1 = "s\<lparr>nr_err := err1, nr_un := Some un1,
                  nr_errt := (nr_errt s)[it := err1],
                  nr_countt := (nr_countt s)[it := count + 1]\<rparr>"
    have u1: "nr_while pass toll ncount it count ug s = nr_while pass toll ncount it (count + 1) un1 ?s1"
      using unfold p1 by simp
    show ?thesis
    proof (cases "toll \<le> err1 \<and> int (count + 1) < ncount")
      case True
      have "nat (ncount - int (count + 1)) < nat (ncount - int count)"
        using less.prems(3) by simp
      from less.hyps[OF this l1, of ?s1] True
      have "(\<exists>e k ug'. nr_while pass toll ncount it (count + 1) un1 ?s1 = Inl e \<and>
            int (count + 1 + k) < ncount \<and> nr_guess pass toll k un1 = Some ug' \<and> bad ug' e) \<or>
         (\<exists>k err un. 0 < k \<and> int (count + 1 + k) \<le> ncount \<and>
            nr_iterate pass k un1 = Inr (err, un) \<and> length un = N \<and>
            (int (count + 1 + k) = ncount \<or> \<not> toll \<le> err) \<and>
            nr_while pass toll ncount it (count + 1) un1 ?s1
              = Inr (?s1\<lparr>nr_err := err, nr_un := Some un,
                       nr_errt := (nr_errt ?s1)[it := err],
                       nr_countt := (nr_countt ?s1)[it := count + 1 + k]\<rparr>))"
        by simp
      then show ?thesis
      proof
        assume "\<exists>e k ug'. nr_while pass toll ncount it (count + 1) un1 ?s1 = Inl e \<and>
            int (count + 1 + k) < ncount \<and> nr_guess pass toll k un1 = Some ug' \<and> bad ug' e"
        then obtain e k ug' where f: "nr_while pass toll ncount it (count + 1) un1 ?s1 = Inl e"
          "int (count + 1 + k) < ncount" "nr_guess pass toll k un1 = Some ug'" "bad ug' e"
          by blast
        have "nr_while pass toll ncount it count ug s = Inl e" using u1 f(1) by simp
        moreover have "int (count + Suc k) < ncount" using f(2) by simp
        moreover have "nr_guess pass toll (Suc k) ug = Some ug'"
          using nr_guess_Suc[of pass ug err1 un1 toll k] p1 True f(3) by simp
        ultimately show ?thesis using f(4) by blast
      next
        assume "\<exists>k err un. 0 < k \<and> int (count + 1 + k) \<le> ncount \<and>
            nr_iterate pass k un1 = Inr (err, un) \<and> length un = N \<and>
            (int (count + 1 + k) = ncount \<or> \<not> toll \<le> err) \<and>
            nr_while pass toll ncount it (count + 1) un1 ?s1
              = Inr (?s1\<lparr>nr_err := err, nr_un := Some un,
                       nr_errt := (nr_errt ?s1)[it := err],
                       nr_countt := (nr_countt ?s1)[it := count + 1 + k]\<rparr>)"
        then obtain k err un where k: "0 < k" "int (count + 1 + k) \<le> ncount"
          "nr_iterate pass k un1 = Inr (err, un)" "length un = N"
          "int (count + 1 + k) = ncount \<or> \<not> toll \<le> err"
          and w: "nr_while pass toll ncount it (count + 1) un1 ?s1
              = Inr (?s1\<lparr>nr_err := err, nr_un := Some un,
                       nr_errt := (nr_errt ?s1)[it := err],
                       nr_countt := (nr_countt ?s1)[it := count + 1 + k]\<rparr>)"
          by blast
        have it: "nr_iterate pass (Suc k) ug = Inr (err, un)"
          using nr_iterate_Suc[of pass ug err1 un1 k] p1 k(1) k(3) by simp
        have "nr_while pass toll ncount it count ug s
              = Inr (s\<lparr>nr_err := err, nr_un := Some un,
                       nr_errt := (nr_errt s)[it := err],
                       nr_countt := (nr_countt s)[it := count + Suc k]\<rparr>)"
          using u1 w by simp
        moreover have "int (count + Suc k) \<le> ncount" using k(2) by simp
        moreover have "int (count + Suc k) = ncount \<or> \<not> toll \<le> err" using k(5) by simp
        ultimately show ?thesis using it k(4) by blast
      qed
    next
      case False
      have c: "\<not> (toll \<le> nr_err ?s1 \<and> int (count + 1) < ncount)" using False by simp
      have stop: "nr_while pass toll ncount it (count + 1) un1 ?s1 = Inr ?s1"
        by (subst nr_while.simps) (simp only: c if_False)
      have "int (count + 1) = ncount \<or> \<not> toll \<le> err1" using False less.prems(3) by auto
      moreover have "int (count + 1) \<le> ncount" using less.prems(3) by simp
      moreover have "nr_iterate pass 1 ug = Inr (err1, un1)" using p1 by simp
      ultimately show ?thesis using u1 stop l1 by (intro disjI2 exI[of _ 1] exI[of _ err1] exI[of _ un1]) simp
    qed
  qed
qed

lemma nr_time_step_result:
  assumes ok: "\<And>uo ug. length uo = N \<Longrightarrow> length ug = N \<Longrightarrow>
      (\<exists>e. pass uo ug = Inl e \<and> bad ug e) \<or>
      (\<exists>err un. pass uo ug = Inr (err, un) \<and> length un = N)"
    and "nr_err s = Fin 1" "toll \<le> Fin 1" "0 < ncount" "length (nr_unnt s ! (it - 1)) = N"
  shows "(\<exists>e k ug. nr_time_step pass toll ncount dt N it s = Inl e \<and> int k < ncount \<and>
            nr_guess (pass (nr_unnt s ! (it - 1))) toll k (nr_unnt s ! (it - 1)) = Some ug \<and>
            bad ug e) \<or>
         (\<exists>k err un. 0 < k \<and> int k \<le> ncount \<and>
            nr_iterate (pass (nr_unnt s ! (it - 1))) k (nr_unnt s ! (it - 1)) = Inr (err, un) \<and>
            length un = N \<and> (int k = ncount \<or> \<not> toll \<le> err) \<and>
            nr_time_step pass toll ncount dt N it s
              = Inr (s\<lparr>nr_err := Fin 1, nr_un := Some un,
                       nr_t := (nr_t s)[it := nr_t s ! (it - 1) + dt],
                       nr_unnt := (nr_unnt s)[it := un],
                       nr_errt := (nr_errt s)[it := err],
                       nr_countt := (nr_countt s)[it := k]\<rparr>))"
proof -
  let ?uo = "nr_unnt s ! (it - 1)"
  have okp: "\<And>ug. length ug = N \<Longrightarrow>
      (\<exists>e. pass ?uo ug = Inl e \<and> bad ug e) \<or>
      (\<exists>err un. pass ?uo ug = Inr (err, un) \<and> length un = N)"
    using ok[OF assms(5)] by blast
  have c: "int 0 < ncount" using assms(4) by simp
  have e: "toll \<le> nr_err s" using assms(2,3) by simp
  from nr_while_result[where pass = "pass ?uo" and bad = bad, OF okp assms(5) e c, of it]
  show ?thesis
  proof
    assume "\<exists>e k ug'. nr_while (pass ?uo) toll ncount it 0 ?uo s = Inl e \<and>
            int (0 + k) < ncount \<and> nr_guess (pass ?uo) toll k ?uo = Some ug' \<and> bad ug' e"
    then obtain e k ug' where f: "nr_while (pass ?uo) toll ncount it 0 ?uo s = Inl e"
      "int k < ncount" "nr_guess (pass ?uo) toll k ?uo = Some ug'" "bad ug' e"
      by auto
    have "nr_time_step pass toll ncount dt N it s = Inl e"
      using f(1) by (simp add: nr_time_step_def)
    then show ?thesis using f(2,3,4) by blast
  next
    assume "\<exists>k err un. 0 < k \<and> int (0 + k) \<le> ncount \<and>
            nr_iterate (pass ?uo) k ?uo = Inr (err, un) \<and> length un = N \<and>
            (int (0 + k) = ncount \<or> \<not> toll \<le> err) \<and>
            nr_while (pass ?uo) toll ncount it 0 ?uo s
              = Inr (s\<lparr>nr_err := err, nr_un := Some un,
                       nr_errt := (nr_errt s)[it := err],
                       nr_countt := (nr_countt s)[it := 0 + k]\<rparr>)"
    then obtain k err un where k: "0 < k" "int k \<le> ncount"
        "nr_iterate (pass ?uo) k ?uo = Inr (err, un)" "length un = N"
        "int k = ncount \<or> \<not> toll \<le> err"
      and w: "nr_while (pass ?uo) toll ncount it 0 ?uo s
              = Inr (s\<lparr>nr_err := err, nr_un := Some un,
                       nr_errt := (nr_errt s)[it := err],
                       nr_countt := (nr_countt s)[it := k]\<rparr>)"
      by auto
    have "nr_time_step pass toll ncount dt N it s
              = Inr (s\<lparr>nr_err := Fin 1, nr_un := Some un,
                       nr_t := (nr_t s)[it := nr_t s ! (it - 1) + dt],
                       nr_unnt := (nr_unnt s)[it := un],
                       nr_errt := (nr_errt s)[it := err],
                       nr_countt := (nr_countt s)[it := k]\<rparr>)"
      using w k(4) by (simp add: nr_time_step_def Let_def)
    then show ?thesis using k by blast
  qed
qed

text \<open>
  The loop over the time steps \<open>1, \<dots>, m - 1\<close>. Either a pass of some time step \<open>j\<close>
  raises, after the steps before \<open>j\<close> have all been taken, or all steps are taken: then
  the error variable is back at 1, the arrays keep their shapes, and every step has left
  its record.
\<close>

lemma nr_loop_result:
  assumes ok: "\<And>uo ug. length uo = N \<Longrightarrow> length ug = N \<Longrightarrow>
      (\<exists>e. pass uo ug = Inl e \<and> bad ug e) \<or>
      (\<exists>err un. pass uo ug = Inr (err, un) \<and> length un = N)"
    and "toll \<le> Fin 1" "0 < ncount"
    and "nr_err start = Fin 1" "length (nr_t start) = nt" "length (nr_unnt start) = nt"
        "length (nr_errt start) = nt" "length (nr_countt start) = nt"
        "\<forall>c\<in>set (nr_unnt start). length c = N"
    and "1 \<le> m" "m \<le> nt"
  shows "(\<exists>e j s k ug. for_range (nr_time_step pass toll ncount dt N) [1..<m] start = Inl e \<and>
            1 \<le> j \<and> j < m \<and>
            for_range (nr_time_step pass toll ncount dt N) [1..<j] start = Inr s \<and>
            int k < ncount \<and>
            nr_guess (pass (nr_unnt s ! (j - 1))) toll k (nr_unnt s ! (j - 1)) = Some ug \<and>
            bad ug e) \<or>
         (\<exists>s. for_range (nr_time_step pass toll ncount dt N) [1..<m] start = Inr s \<and>
            nr_err s = Fin 1 \<and> length (nr_t s) = nt \<and> length (nr_unnt s) = nt \<and>
            length (nr_errt s) = nt \<and> length (nr_countt s) = nt \<and>
            (\<forall>c\<in>set (nr_unnt s). length c = N) \<and>
            nr_t s ! 0 = nr_t start ! 0 \<and> nr_unnt s ! 0 = nr_unnt start ! 0 \<and>
            (\<forall>it. 1 \<le> it \<and> it < m \<longrightarrow>
               nr_recorded pass dt toll ncount (nr_t s, nr_unnt s, nr_errt s, nr_countt s) it))"
  using assms(10,11)
proof (induction m)
  case 0
  then show ?case by simp
next
  case (Suc m)
  show ?case
  proof (cases "m = 0")
    case True
    then show ?thesis using assms(4-9) by simp
  next
    case False
    then have m: "1 \<le> m" "m \<le> nt" "m < nt" using Suc.prems by simp_all
    from Suc.IH[OF m(1,2)] show ?thesis
    proof
      assume "\<exists>e j s k ug. for_range (nr_time_step pass toll ncount dt N) [1..<m] start = Inl e \<and>
            1 \<le> j \<and> j < m \<and>
            for_range (nr_time_step pass toll ncount dt N) [1..<j] start = Inr s \<and>
            int k < ncount \<and>
            nr_guess (pass (nr_unnt s ! (j - 1))) toll k (nr_unnt s ! (j - 1)) = Some ug \<and>
            bad ug e"
      then obtain e j s k ug where
        f: "for_range (nr_time_step pass toll ncount dt N) [1..<m] start = Inl e"
           "1 \<le> j" "j < m"
           "for_range (nr_time_step pass toll ncount dt N) [1..<j] start = Inr s"
           "int k < ncount"
           "nr_guess (pass (nr_unnt s ! (j - 1))) toll k (nr_unnt s ! (j - 1)) = Some ug"
           "bad ug e"
        by blast
      have "for_range (nr_time_step pass toll ncount dt N) [1..<Suc m] start = Inl e"
        using f(1) m(1) by (simp add: for_range_append)
      moreover have "j < Suc m" using f(3) by simp
      ultimately show ?thesis using f(2,4,5,6,7) by blast
    next
      assume "\<exists>s. for_range (nr_time_step pass toll ncount dt N) [1..<m] start = Inr s \<and>
            nr_err s = Fin 1 \<and> length (nr_t s) = nt \<and> length (nr_unnt s) = nt \<and>
            length (nr_errt s) = nt \<and> length (nr_countt s) = nt \<and>
            (\<forall>c\<in>set (nr_unnt s). length c = N) \<and>
            nr_t s ! 0 = nr_t start ! 0 \<and> nr_unnt s ! 0 = nr_unnt start ! 0 \<and>
            (\<forall>it. 1 \<le> it \<and> it < m \<longrightarrow>
               nr_recorded pass dt toll ncount (nr_t s, nr_unnt s, nr_errt s, nr_countt s) it)"
      then obtain s where run: "for_range (nr_time_step pass toll ncount dt N) [1..<m] start = Inr s"
        and inv: "nr_err s = Fin 1" "length (nr_t s) = nt" "length (nr_unnt s) = nt"
            "length (nr_errt s) = nt" "length (nr_countt s) = nt"
            "\<forall>c\<in>set (nr_unnt s). length c = N"
            "nr_t s ! 0 = nr_t start ! 0" "nr_unnt s ! 0 = nr_unnt start ! 0"
        and rec: "\<forall>it. 1 \<le> it \<and> it < m \<longrightarrow>
               nr_recorded pass dt toll ncount (nr_t s, nr_unnt s, nr_errt s, nr_countt s) it"
        by blast
      have prev: "length (nr_unnt s ! (m - 1)) = N" using inv(3,6) m by simp
      from nr_time_step_result[where pass = pass and bad = bad, OF ok inv(1) assms(2,3) prev, of dt]
      show ?thesis
      proof
        assume "\<exists>e k ug. nr_time_step pass toll ncount dt N m s = Inl e \<and> int k < ncount \<and>
            nr_guess (pass (nr_unnt s ! (m - 1))) toll k (nr_unnt s ! (m - 1)) = Some ug \<and>
            bad ug e"
        then obtain e k ug where f: "nr_time_step pass toll ncount dt N m s = Inl e"
          "int k < ncount"
          "nr_guess (pass (nr_unnt s ! (m - 1))) toll k (nr_unnt s ! (m - 1)) = Some ug"
          "bad ug e"
          by blast
        have "for_range (nr_time_step pass toll ncount dt N) [1..<Suc m] start = Inl e"
          using run f(1) m(1) by (simp add: for_range_append)
        moreover have "m < Suc m" by simp
        ultimately show ?thesis using m(1) run f(2,3,4) by blast
      next
        assume "\<exists>k err un. 0 < k \<and> int k \<le> ncount \<and>
            nr_iterate (pass (nr_unnt s ! (m - 1))) k (nr_unnt s ! (m - 1)) = Inr (err, un) \<and>
            length un = N \<and> (int k = ncount \<or> \<not> toll \<le> err) \<and>
            nr_time_step pass toll ncount dt N m s
              = Inr (s\<lparr>nr_err := Fin 1, nr_un := Some un,
                       nr_t := (nr_t s)[m := nr_t s ! (m - 1) + dt],
                       nr_unnt := (nr_unnt s)[m := un],
                       nr_errt := (nr_errt s)[m := err],
                       nr_countt := (nr_countt s)[m := k]\<rparr>)"
        then obtain k err un where k: "0 < k" "int k \<le> ncount"
            "nr_iterate (pass (nr_unnt s ! (m - 1))) k (nr_unnt s ! (m - 1)) = Inr (err, un)"
            "length un = N" "int k = ncount \<or> \<not> toll \<le> err"
          and st: "nr_time_step pass toll ncount dt N m s
              = Inr (s\<lparr>nr_err := Fin 1, nr_un := Some un,
                       nr_t := (nr_t s)[m := nr_t s ! (m - 1) + dt],
                       nr_unnt := (nr_unnt s)[m := un],
                       nr_errt := (nr_errt s)[m := err],
                       nr_countt := (nr_countt s)[m := k]\<rparr>)"
          by blast
        let ?s' = "s\<lparr>nr_err := Fin 1, nr_un := Some un,
                       nr_t := (nr_t s)[m := nr_t s ! (m - 1) + dt],
                       nr_unnt := (nr_unnt s)[m := un],
                       nr_errt := (nr_errt s)[m := err],
                       nr_countt := (nr_countt s)[m := k]\<rparr>"
        have run': "for_range (nr_time_step pass toll ncount dt N) [1..<Suc m] start = Inr ?s'"
          using run st m(1) by (simp add: for_range_append)
        have cols: "\<forall>c\<in>set (nr_unnt ?s'). length c = N"
          using inv(6) k(4) by (auto dest: subsetD[OF set_update_subset_insert])
        have recs: "nr_recorded pass dt toll ncount (nr_t ?s', nr_unnt ?s', nr_errt ?s', nr_countt ?s') it"
          if "1 \<le> it \<and> it < Suc m" for it
        proof (cases "it = m")
          case True
          then show ?thesis using k inv m by (simp add: nr_recorded_def)
        next
          case False
          then have "it < m" "1 \<le> it" using that by simp_all
          then show ?thesis using rec by (simp add: nr_recorded_def)
        qed
        have "nr_err ?s' = Fin 1 \<and> length (nr_t ?s') = nt \<and> length (nr_unnt ?s') = nt \<and>
            length (nr_errt ?s') = nt \<and> length (nr_countt ?s') = nt \<and>
            nr_t ?s' ! 0 = nr_t start ! 0 \<and> nr_unnt ?s' ! 0 = nr_unnt start ! 0"
          using inv m by simp
        then show ?thesis using run' cols recs by blast
      qed
    qed
  qed
qed

lemma nr_run_result:
  assumes ok: "\<And>uo ug. length uo = length xx \<Longrightarrow> length ug = length xx \<Longrightarrow>
      (\<exists>e. pass uo ug = Inl e \<and> bad ug e) \<or>
      (\<exists>err un. pass uo ug = Inr (err, un) \<and> length un = length xx)"
    and "toll \<le> Fin 1" "0 < ncount" "length hh = length xx" "0 < nt"
  shows "case nr_run pass xx hh dt nt toll ncount of
           Inl e \<Rightarrow>
             \<exists>it s k ug. 1 \<le> it \<and> it < nt \<and>
               nr_before pass xx hh dt nt toll ncount it = Inr s \<and> int k < ncount \<and>
               nr_guess (pass (nr_unnt s ! (it - 1))) toll k (nr_unnt s ! (it - 1)) = Some ug \<and>
               bad ug e
         | Inr res \<Rightarrow>
             (case res of (t, unnt, errt, countt) \<Rightarrow>
                length t = nt \<and> length unnt = nt \<and> length errt = nt \<and> length countt = nt \<and>
                t ! 0 = Fin 0 \<and> unnt ! 0 = hh) \<and>
             (\<forall>it. 1 \<le> it \<and> it < nt \<longrightarrow> nr_recorded pass dt toll ncount res it)"
proof -
  let ?N = "length xx"
  let ?s0 = "\<lparr>nr_err = Fin 1, nr_un = None,
              nr_t = replicate nt (Fin 0),
              nr_unnt = (replicate nt (replicate ?N (Fin 0)))[0 := hh],
              nr_errt = replicate nt (Fin 0),
              nr_countt = replicate nt 0\<rparr>"
  have run: "nr_run pass xx hh dt nt toll ncount =
      (case for_range (nr_time_step pass toll ncount dt ?N) [1..<nt] ?s0 of
         Inl e \<Rightarrow> Inl e
       | Inr s \<Rightarrow> Inr (nr_t s, nr_unnt s, nr_errt s, nr_countt s))"
    using assms(4,5) by (simp add: nr_run_def)
  have before: "nr_before pass xx hh dt nt toll ncount j
      = for_range (nr_time_step pass toll ncount dt ?N) [1..<j] ?s0" for j
    using assms(4) by (simp add: nr_before_def)
  have cols: "\<forall>c\<in>set (nr_unnt ?s0). length c = ?N"
    using assms(4) by (auto dest: subsetD[OF set_update_subset_insert])
  have one: "1 \<le> nt" using assms(5) by simp
  have i1: "nr_err ?s0 = Fin 1" by simp
  have i2: "length (nr_t ?s0) = nt" by simp
  have i3: "length (nr_unnt ?s0) = nt" by simp
  have i4: "length (nr_errt ?s0) = nt" by simp
  have i5: "length (nr_countt ?s0) = nt" by simp
  have le: "nt \<le> nt" by simp
  have "(\<exists>e j s k ug. for_range (nr_time_step pass toll ncount dt ?N) [1..<nt] ?s0 = Inl e \<and>
            1 \<le> j \<and> j < nt \<and>
            for_range (nr_time_step pass toll ncount dt ?N) [1..<j] ?s0 = Inr s \<and>
            int k < ncount \<and>
            nr_guess (pass (nr_unnt s ! (j - 1))) toll k (nr_unnt s ! (j - 1)) = Some ug \<and>
            bad ug e) \<or>
         (\<exists>s. for_range (nr_time_step pass toll ncount dt ?N) [1..<nt] ?s0 = Inr s \<and>
            nr_err s = Fin 1 \<and> length (nr_t s) = nt \<and> length (nr_unnt s) = nt \<and>
            length (nr_errt s) = nt \<and> length (nr_countt s) = nt \<and>
            (\<forall>c\<in>set (nr_unnt s). length c = ?N) \<and>
            nr_t s ! 0 = nr_t ?s0 ! 0 \<and> nr_unnt s ! 0 = nr_unnt ?s0 ! 0 \<and>
            (\<forall>it. 1 \<le> it \<and> it < nt \<longrightarrow>
               nr_recorded pass dt toll ncount (nr_t s, nr_unnt s, nr_errt s, nr_countt s) it))"
    by (rule nr_loop_result[where pass = pass and bad = bad and start = ?s0 and nt = nt
          and m = nt and N = ?N and dt = dt, OF ok assms(2,3) i1 i2 i3 i4 i5 cols one le])
  then show ?thesis
  proof
    assume "\<exists>e j s k ug. for_range (nr_time_step pass toll ncount dt ?N) [1..<nt] ?s0 = Inl e \<and>
            1 \<le> j \<and> j < nt \<and>
            for_range (nr_time_step pass toll ncount dt ?N) [1..<j] ?s0 = Inr s \<and>
            int k < ncount \<and>
            nr_guess (pass (nr_unnt s ! (j - 1))) toll k (nr_unnt s ! (j - 1)) = Some ug \<and>
            bad ug e"
    then obtain e j s k ug where
      f: "for_range (nr_time_step pass toll ncount dt ?N) [1..<nt] ?s0 = Inl e"
         "1 \<le> j" "j < nt"
         "for_range (nr_time_step pass toll ncount dt ?N) [1..<j] ?s0 = Inr s"
         "int k < ncount"
         "nr_guess (pass (nr_unnt s ! (j - 1))) toll k (nr_unnt s ! (j - 1)) = Some ug"
         "bad ug e"
      by blast
    have r: "nr_run pass xx hh dt nt toll ncount = Inl e" using run f(1) by simp
    have b: "nr_before pass xx hh dt nt toll ncount j = Inr s" using before f(4) by simp
    have "\<exists>it s k ug. 1 \<le> it \<and> it < nt \<and>
               nr_before pass xx hh dt nt toll ncount it = Inr s \<and> int k < ncount \<and>
               nr_guess (pass (nr_unnt s ! (it - 1))) toll k (nr_unnt s ! (it - 1)) = Some ug \<and>
               bad ug e"
      using f(2,3,5,6,7) b by blast
    then show ?thesis unfolding r by simp
  next
    assume "\<exists>s. for_range (nr_time_step pass toll ncount dt ?N) [1..<nt] ?s0 = Inr s \<and>
            nr_err s = Fin 1 \<and> length (nr_t s) = nt \<and> length (nr_unnt s) = nt \<and>
            length (nr_errt s) = nt \<and> length (nr_countt s) = nt \<and>
            (\<forall>c\<in>set (nr_unnt s). length c = ?N) \<and>
            nr_t s ! 0 = nr_t ?s0 ! 0 \<and> nr_unnt s ! 0 = nr_unnt ?s0 ! 0 \<and>
            (\<forall>it. 1 \<le> it \<and> it < nt \<longrightarrow>
               nr_recorded pass dt toll ncount (nr_t s, nr_unnt s, nr_errt s, nr_countt s) it)"
    then obtain s where s: "for_range (nr_time_step pass toll ncount dt ?N) [1..<nt] ?s0 = Inr s"
      "length (nr_t s) = nt" "length (nr_unnt s) = nt" "length (nr_errt s) = nt"
      "length (nr_countt s) = nt" "nr_t s ! 0 = nr_t ?s0 ! 0" "nr_unnt s ! 0 = nr_unnt ?s0 ! 0"
      "\<forall>it. 1 \<le> it \<and> it < nt \<longrightarrow>
               nr_recorded pass dt toll ncount (nr_t s, nr_unnt s, nr_errt s, nr_countt s) it"
      by blast
    have "nr_t ?s0 ! 0 = Fin 0" "nr_unnt ?s0 ! 0 = hh" using assms(5) by simp_all
    then show ?thesis using run s by simp
  qed
qed

section \<open>Finite fields and sums\<close>

lemma lift_map:
  assumes "\<And>v. f (Fin v) = Fin (g v)"
  shows "map f (map Fin us) = map Fin (map g us)"
  using assms by simp

lemma lift_map2:
  assumes "\<And>a b. f (Fin a) (Fin b) = Fin (g a b)"
  shows "map2 f (map Fin as) (map Fin bs) = map Fin (map2 g as bs)"
  using assms by (induction as arbitrary: bs) (auto simp: zip_Cons1 split: list.splits)

lemma maximum_Fin: "maximum (Fin a) (Fin b) = Fin (max a b)"
  by (simp add: max_def)

lemma minimum_Fin: "minimum (Fin a) (Fin b) = Fin (min a b)"
  by (simp add: min_def)

lemma sum_list_rotate1: "sum_list (rotate1 xs) = sum_list (xs :: real list)"
  by (cases xs) simp_all

lemma sum_list_rotate: "sum_list (rotate n xs) = sum_list (xs :: real list)"
  by (induction n) (simp_all add: sum_list_rotate1)

lemma sum_list_roll: "sum_list (roll xs k) = sum_list (xs :: real list)"
  by (simp add: roll_def sum_list_rotate)

lemma sum_list_map2_diff:
  "length as = length bs \<Longrightarrow> sum_list (map2 (-) as bs) = sum_list as - sum_list (bs :: real list)"
  by (induction as bs rule: list_induct2) simp_all

lemma sum_list_scale: "sum_list (map (\<lambda>g. c * g) xs) = c * sum_list (xs :: real list)"
  by (induction xs) (simp_all add: algebra_simps)

lemma sum_list_div: "sum_list (map (\<lambda>d. d / h) xs) = sum_list (xs :: real list) / h"
  by (induction xs) (simp_all add: add_divide_distrib)

lemma sum_list_update_real:
  "k < length xs \<Longrightarrow> sum_list (xs[k := x]) = sum_list xs - xs ! k + (x :: real)"
  by (induction xs arbitrary: k) (auto split: nat.splits)

text \<open>
  The minimum of quotients that are positive or infinite is positive, and finite as soon
  as one of them is.
\<close>

lemma foldl_minimum_pos:
  assumes "y = PInf \<or> (\<exists>d>0. y = Fin d)" "\<forall>z\<in>set ys. z = PInf \<or> (\<exists>d>0. z = Fin d)"
  shows "(foldl minimum y ys = PInf \<or> (\<exists>d>0. foldl minimum y ys = Fin d)) \<and>
         ((\<exists>d. y = Fin d) \<or> (\<exists>z\<in>set ys. \<exists>d. z = Fin d) \<longrightarrow> (\<exists>d>0. foldl minimum y ys = Fin d))"
  using assms
proof (induction ys arbitrary: y)
  case Nil
  then show ?case by auto
next
  case (Cons z ys)
  have z: "z = PInf \<or> (\<exists>d>0. z = Fin d)" using Cons.prems(2) by simp
  have m: "minimum y z = PInf \<or> (\<exists>d>0. minimum y z = Fin d)"
    using Cons.prems(1) z by (auto split: if_splits)
  have fin: "\<exists>d. minimum y z = Fin d" if "(\<exists>d. y = Fin d) \<or> (\<exists>d. z = Fin d)"
    using that Cons.prems(1) z by (auto split: if_splits)
  from Cons.IH[OF m] Cons.prems(2)
  have ih: "(foldl minimum (minimum y z) ys = PInf \<or> (\<exists>d>0. foldl minimum (minimum y z) ys = Fin d)) \<and>
         ((\<exists>d. minimum y z = Fin d) \<or> (\<exists>w\<in>set ys. \<exists>d. w = Fin d)
            \<longrightarrow> (\<exists>d>0. foldl minimum (minimum y z) ys = Fin d))"
    by simp
  show ?case using ih fin by auto
qed

lemma np_min_pos:
  assumes "\<forall>z\<in>set q. z = PInf \<or> (\<exists>d>0. z = Fin d)" "\<exists>z\<in>set q. \<exists>d. z = Fin d"
  shows "\<exists>d>0. np_min q = Inr (Fin d)"
proof (cases q)
  case Nil
  then show ?thesis using assms(2) by simp
next
  case (Cons y ys)
  from foldl_minimum_pos[of y ys] assms Cons
  have "\<exists>d>0. foldl minimum y ys = Fin d" by auto
  then show ?thesis using Cons by (simp add: np_min_def)
qed

section \<open>Rusanov step lemmas\<close>

lemma cfl_adv_burger_finite:
  assumes "sorted_wrt (<) xs" "2 \<le> length xs" "length ws = length xs" "\<exists>w\<in>set ws. w \<noteq> 0"
  shows "\<exists>dt>0. cfl_adv_burger (PerPoint (map Fin ws)) (map Fin xs) = Inr (Fin dt)"
proof -
  from gradient_increasing[OF assms(1,2)] obtain gs where
    g: "gradient (map Fin xs) = Inr (map Fin gs)" and len: "length gs = length xs"
    and pos: "\<forall>g\<in>set gs. 0 < g" by blast
  let ?q = "map2 (/) (map Fin gs) (map abs (map Fin ws))"
  have q: "arr_coef (/) (map Fin gs) (coef_map abs (PerPoint (map Fin ws))) = Inr ?q"
    using len assms(3) by (simp add: bcast_same)
  have lq: "length ?q = length xs" using len assms(3) by simp
  have nth: "?q ! j = (if ws ! j = 0 then PInf else Fin (gs ! j / \<bar>ws ! j\<bar>))" if "j < length xs" for j
  proof -
    have "0 < gs ! j" using pos that len by simp
    then show ?thesis using that len assms(3) by simp
  qed
  have all: "\<forall>z\<in>set ?q. z = PInf \<or> (\<exists>d>0. z = Fin d)"
  proof
    fix z assume "z \<in> set ?q"
    then obtain j where j: "j < length ?q" "z = ?q ! j" by (auto simp: in_set_conv_nth)
    have "j < length xs" using j(1) unfolding lq .
    then have jj: "j < length xs" .
    have "0 < gs ! j" using pos jj len by simp
    then have "ws ! j \<noteq> 0 \<Longrightarrow> 0 < gs ! j / \<bar>ws ! j\<bar>" by simp
    then show "z = PInf \<or> (\<exists>d>0. z = Fin d)" using nth[OF jj] j(2) by auto
  qed
  from assms(4) obtain j where j: "j < length ws" "ws ! j \<noteq> 0" by (auto simp: in_set_conv_nth)
  then have "?q ! j = Fin (gs ! j / \<bar>ws ! j\<bar>)" using nth[of j] assms(3) by simp
  moreover have "?q ! j \<in> set ?q" using j(1) lq assms(3) by (intro nth_mem) simp
  ultimately have some: "\<exists>z\<in>set ?q. \<exists>d. z = Fin d" by metis
  from np_min_pos[OF all some] show ?thesis using g q by (simp add: cfl_adv_burger_def)
qed

lemma Rie_uadv_next_finite:
  assumes "sorted_wrt (<) xs" "2 \<le> length xs" "length us = length xs" "\<exists>v\<in>set us. v \<noteq> 0"
  shows "\<exists>dt cand. Rie_uadv_next (map Fin xs) (Fin (xs ! 1 - xs ! 0)) (map Fin us)
                        = Inr (Fin dt, map Fin cand) \<and>
                    0 < dt \<and> length cand = length xs \<and> sum_list cand = sum_list us"
proof -
  let ?N = "length xs"
  define h where "h = xs ! 1 - xs ! 0"
  have "xs ! 0 < xs ! 1" using sorted_wrt_nth_less[OF assms(1), of 0 1] assms(2) by simp
  then have h: "h \<noteq> 0" by (simp add: h_def)
  define uR where "uR = roll us (- 1)"
  define FL where "FL = map (\<lambda>v. 1/2 * (v * v)) us"
  define FR where "FR = map (\<lambda>v. 1/2 * (v * v)) uR"
  define va where "va = map2 max (map abs us) (map abs uR)"
  define Fp where "Fp = map2 (-) (map (\<lambda>s. 1/2 * s) (map2 (+) FL FR))
                          (map2 (*) (map (\<lambda>v. 1/2 * v) va) (map2 (-) uR us))"
  define Fi where "Fi = map (\<lambda>d. d / h) (map2 (-) Fp (roll Fp 1))"
  have lens: "length uR = ?N" "length FL = ?N" "length FR = ?N" "length va = ?N"
    "length Fp = ?N" "length Fi = ?N"
    using assms(3) by (simp_all add: uR_def FL_def FR_def va_def Fp_def Fi_def)
  have e_uR: "roll (map Fin us) (- 1) = map Fin uR" by (simp add: uR_def roll_map)
  have e_FL: "map (\<lambda>v. Fin (1/2) * (v * v)) (map Fin us) = map Fin FL"
    unfolding FL_def by (rule lift_map) simp
  have e_FR: "map (\<lambda>v. Fin (1/2) * (v * v)) (map Fin uR) = map Fin FR"
    unfolding FR_def by (rule lift_map) simp
  have e_abs: "map abs (map Fin w) = map Fin (map abs w)" for w :: "real list"
    by (rule lift_map) simp
  have e_va: "map2 maximum (map abs (map Fin us)) (map abs (map Fin uR)) = map Fin va"
    unfolding va_def e_abs by (rule lift_map2) (rule maximum_Fin)
  have e_sum: "map2 (+) (map Fin FL) (map Fin FR) = map Fin (map2 (+) FL FR)"
    by (rule lift_map2) simp
  have e_half: "map (\<lambda>s. Fin (1/2) * s) (map Fin w) = map Fin (map (\<lambda>s. 1/2 * s) w)" for w
    by (rule lift_map) simp
  have e_diff: "map2 (-) (map Fin w1) (map Fin w2) = map Fin (map2 (-) w1 w2)" for w1 w2
    by (rule lift_map2) simp
  have e_mul: "map2 (*) (map Fin w1) (map Fin w2) = map Fin (map2 (*) w1 w2)" for w1 w2
    by (rule lift_map2) simp
  have e_Fp: "map2 (-)
             (map (\<lambda>s. Fin (1/2) * s) (map2 (+) (map Fin FL) (map Fin FR)))
             (map2 (*) (map (\<lambda>v. Fin (1/2) * v) (map Fin va)) (map2 (-) (map Fin uR) (map Fin us)))
          = map Fin Fp"
    unfolding Fp_def e_sum e_half e_diff e_mul by (rule refl)
  have e_div: "map (\<lambda>d. d / Fin h) (map Fin w) = map Fin (map (\<lambda>d. d / h) w)" for w
    by (rule lift_map) (simp add: h)
  have e_Fi: "map (\<lambda>d. d / Fin h) (map2 (-) (map Fin Fp) (roll (map Fin Fp) 1)) = map Fin Fi"
    unfolding Fi_def roll_map e_diff e_div by (rule refl)
  have "\<exists>w\<in>set va. w \<noteq> 0"
  proof -
    from assms(4) obtain j where j: "j < length us" "us ! j \<noteq> 0" by (auto simp: in_set_conv_nth)
    then have "va ! j = max \<bar>us ! j\<bar> \<bar>uR ! j\<bar>" using lens(1) assms(3) by (simp add: va_def)
    moreover have "0 < \<bar>us ! j\<bar>" using j(2) by simp
    ultimately have "0 < va ! j" by (simp add: less_max_iff_disj)
    then have "va ! j \<noteq> 0" by simp
    moreover have "va ! j \<in> set va" using j(1) lens(4) assms(3) by (intro nth_mem) simp
    ultimately show ?thesis by blast
  qed
  from cfl_adv_burger_finite[OF assms(1,2) lens(4) this] obtain dt where
    dt: "0 < dt" "cfl_adv_burger (PerPoint (map Fin va)) (map Fin xs) = Inr (Fin dt)" by blast
  define cand where "cand = map2 (-) us (map (\<lambda>g. dt * g) Fi)"
  have e_scale: "map (\<lambda>g. Fin dt * g) (map Fin Fi) = map Fin (map (\<lambda>g. dt * g) Fi)"
    by (rule lift_map) simp
  have e_cand: "map2 (-) (map Fin us) (map (\<lambda>g. Fin dt * g) (map Fin Fi)) = map Fin cand"
    unfolding cand_def e_scale e_diff by (rule refl)
  have run: "Rie_uadv_next (map Fin xs) (Fin h) (map Fin us) = Inr (Fin dt, map Fin cand)"
    unfolding Rie_uadv_next_def Let_def roll_0 e_uR e_FL e_FR e_va e_Fp e_Fi dt(2)
    by (simp only: sum.case e_cand)
  have "sum_list (map2 (-) Fp (roll Fp 1)) = 0"
    by (simp add: sum_list_map2_diff sum_list_roll)
  then have "sum_list Fi = 0" unfolding Fi_def sum_list_div by simp
  moreover have "length (map (\<lambda>g. dt * g) Fi) = length us" using lens(6) assms(3) by simp
  ultimately have "sum_list cand = sum_list us"
    unfolding cand_def by (simp only: sum_list_map2_diff sum_list_scale)
  moreover have "length cand = ?N" using lens(6) assms(3) by (simp add: cand_def)
  ultimately show ?thesis using run dt(1) unfolding h_def by blast
qed

lemma Rie_uadv_next_ok:
  assumes "2 \<le> length xx" "length u = length xx"
  shows "\<exists>dt v. Rie_uadv_next xx dx u = Inr (dt, v) \<and> length v = length xx"
proof -
  let ?va = "map2 maximum (map abs (roll u 0)) (map abs (roll u (- 1)))"
  have "fits (PerPoint ?va) (length xx)" using assms(2) by simp
  from cfl_adv_burger_ok[OF assms(1) this] obtain c where
    "cfl_adv_burger (PerPoint ?va) xx = Inr c" by blast
  then show ?thesis using assms(2) by (simp add: Rie_uadv_next_def Let_def)
qed

lemma Rie_uadv_next_Inr:
  assumes "with_bnd bnd_type bl (Rie_uadv_next xx dx u) = Inr (dt, p)"
  shows "\<exists>v. Rie_uadv_next xx dx u = Inr (dt, v) \<and> bnd_fix bnd_type bl v = Inr p"
  using assms by (rule with_bnd_Inr)

section \<open>Jacobian of the implicit solver\<close>

text \<open>
  C4: \<open>jacobian\<close> is claimed to return the tridiagonal matrix whose every diagonal entry
  is \<open>1 + 2 a dt / dx\<^sup>2\<close> and whose every superdiagonal and subdiagonal entry is
  \<open>- a dt / dx\<^sup>2\<close>, and \<open>jacobian_u\<close> the same with \<open>un[i]\<close> for \<open>a\<close> on row \<open>i\<close>.
  The loop guards the subdiagonal entry with \<open>i > 1\<close>, so row 1 never receives its
  subdiagonal entry: on the grid \<open>[0, 1, 2]\<close> with \<open>a = 1\<close> and \<open>dt = 1\<close> the entry
  \<open>J[1, 0]\<close> is 0 where the claim has \<open>- 1\<close>, and for \<open>jacobian_u\<close> with
  \<open>un = [5, 6, 7]\<close> it is 0 where the claim has \<open>- 6\<close>.
\<close>

theorem jacobian_row_1_lacks_subdiagonal:
  "jacobian [Fin 0, Fin 1, Fin 2] [Fin 5, Fin 6, Fin 7] (Scalar (Fin 1)) (Fin 1)
     = Inr [[Fin 3, Fin (- 1), Fin 0], [Fin 0, Fin 3, Fin (- 1)], [Fin 0, Fin (- 1), Fin 3]]
   \<and> jacobian_u [Fin 0, Fin 1, Fin 2] [Fin 5, Fin 6, Fin 7] (Fin 1)
     = Inr [[Fin 11, Fin (- 5), Fin 0], [Fin 0, Fin 13, Fin (- 6)], [Fin 0, Fin (- 7), Fin 15]]"
  by code_simp

section \<open>Boundary policy: width and wrap padding\<close>

text \<open>
  C8 (as amended): the boundary fix makes no check of the margins against \<open>N/2\<close> and
  has no configuration error. For a candidate of width \<open>N\<close> and non-negative margins with
  \<open>left + right < N\<close>, which holds whenever both margins are below \<open>N/2\<close>, the fix
  returns an array of exactly width \<open>N\<close>, whatever the padding mode; with \<open>wrap\<close> its
  entry \<open>k\<close> is entry \<open>(k - left) mod (N - left - right)\<close> of the retained slice
  \<open>u_next[left : N - right]\<close>, so the padding is drawn cyclically from the retained
  values.
\<close>

theorem bnd_fix_width_and_wrap:
  assumes "0 \<le> l" "0 \<le> r" "nat l + nat r < length u"
  shows "\<exists>p. bnd_fix mode (l, r) u = Inr p \<and> length p = length u \<and>
           (mode = Wrap \<longrightarrow>
              (\<forall>k<length u.
                 p ! k = take (length u - nat r - nat l) (drop (nat l) u)
                           ! nat ((int k - l) mod int (length u - nat r - nat l))))"
proof (cases "mode = Wrap")
  case True
  then show ?thesis using bnd_fix_wrap[OF assms] by simp
next
  case False
  then show ?thesis using bnd_fix_ok[OF assms, of mode] by auto
qed

theorem bnd_fix_width_and_wrap_witness:
  "(0::int) \<le> 1 \<and> nat 1 + nat 1 < length [Fin 1, Fin 2, Fin 3, Fin 4] \<and>
   (\<exists>p. bnd_fix Wrap (1, 1) [Fin 1, Fin 2, Fin 3, Fin 4] = Inr p \<and> length p = 4 \<and>
        (\<forall>k<4. p ! k = [Fin 2, Fin 3] ! nat ((int k - 1) mod 2)))"
  using bnd_fix_width_and_wrap[of 1 1 "[Fin 1, Fin 2, Fin 3, Fin 4]" Wrap]
  by (simp add: numeral_eq_Suc)

text \<open>
  A margin of 2 on a candidate of width 4 is not below \<open>N/2\<close>, and the fix returns a
  value.
\<close>

theorem bnd_fix_accepts_half_width_margin:
  "int (length [Fin 1, Fin 2, Fin 3, Fin 4]) \<le> 2 * 2 \<and>
   bnd_fix Wrap (2, 0) [Fin 1, Fin 2, Fin 3, Fin 4] = Inr [Fin 3, Fin 4, Fin 3, Fin 4]"
  by code_simp

section \<open>The explicit advection stepper\<close>

text \<open>
  C2: on a grid of \<open>N\<close> points with a field of \<open>N\<close> values, a coefficient that is a
  scalar or has \<open>N\<close> values, one of the library's derivative operators, margins that
  leave a retained slice, and \<open>nt \<ge> 2\<close>, \<open>evolv_adv_burgers\<close> returns. The time
  array has length \<open>nt\<close> and starts at 0, the snapshot matrix has \<open>nt\<close> columns of \<open>N\<close>
  values and column 0 is the initial field. All \<open>nt - 1\<close> passes of the loop run: for
  every \<open>i\<close> in \<open>[0, nt - 2]\<close>, column \<open>i + 1\<close> is the boundary fix of the candidate
  \<open>field[i] + rhs * dt\<close>, with \<open>(dt, rhs)\<close> the result of \<open>step_adv_burgers\<close> on
  column \<open>i\<close>, and \<open>t[i + 1] = t[i] + dt\<close>. In the model a zero coefficient gives an
  infinite step and no exception, so the theorem needs no hypothesis on the value of
  \<open>a\<close>.
\<close>


theorem evolv_adv_burgers_run:
  assumes "2 \<le> length xx" "length hh = length xx" "fits a (length xx)"
    and "0 \<le> l" "0 \<le> r" "nat l + nat r < length xx" "2 \<le> nt"
  shows "\<exists>t unnt. evolv_adv_burgers xx hh nt a cfl_cut (ddx_of sel) bnd_type (l, r) = Inr (t, unnt) \<and>
     length t = nt \<and> length unnt = nt \<and> (\<forall>c\<in>set unnt. length c = length xx) \<and>
     t ! 0 = Fin 0 \<and> unnt ! 0 = hh \<and>
     (\<forall>i<nt - 1. \<exists>dt rhs u_next.
         step_adv_burgers xx (unnt ! i) a cfl_cut (ddx_of sel) = Inr (dt, rhs) \<and>
         bcast (+) (unnt ! i) (map (\<lambda>r. r * dt) rhs) = Inr u_next \<and>
         bnd_fix bnd_type (l, r) u_next = Inr (unnt ! (i + 1)) \<and>
         t ! (i + 1) = t ! i + dt)"
proof -
  let ?N = "length xx"
  let ?scheme = "\<lambda>u. with_bnd bnd_type (l, r) (adv_burgers_next xx a cfl_cut (ddx_of sel) u)"
  let ?s0 = "(replicate nt (Fin 0), (replicate nt (replicate ?N (Fin 0)))[0 := hh])"
  have nt: "0 < nt" using assms(7) by simp
  have init: "init_series xx hh nt = Inr ?s0" using init_series_Inr[OF nt assms(2)] .
  have cols0: "\<forall>c\<in>set (snd ?s0). length c = ?N"
    using init_series_cols[OF init] by blast
  have ok: "\<exists>dt v. ?scheme u = Inr (dt, v) \<and> length v = ?N" if "length u = ?N" for u
  proof -
    from adv_burgers_next_ok[OF assms(1,3) that] obtain dt v where
      v: "adv_burgers_next xx a cfl_cut (ddx_of sel) u = Inr (dt, v)" "length v = ?N" by blast
    have "nat l + nat r < length v" using assms(6) v(2) by simp
    from with_bnd_ok[OF v(1) assms(4,5) this, of bnd_type] v(2) show ?thesis by auto
  qed
  from time_loop_total[of ?N ?scheme ?s0 "nt - 1", OF ok cols0] nt
  obtain s where s: "for_range (store_step ?scheme ?N) [0..<nt - 1] ?s0 = Inr s"
    and cols: "\<forall>c\<in>set (snd s). length c = ?N" by auto
  have inv: "length (fst s) = length (fst ?s0) \<and> length (snd s) = length (snd ?s0) \<and>
         fst s ! 0 = fst ?s0 ! 0 \<and> snd s ! 0 = snd ?s0 ! 0 \<and>
         (\<forall>k>nt - 1. fst s ! k = fst ?s0 ! k \<and> snd s ! k = snd ?s0 ! k) \<and>
         (\<forall>i<nt - 1. \<exists>dt v. ?scheme (snd s ! i) = Inr (dt, v) \<and>
                    set_col ?N v = Inr (snd s ! (i + 1)) \<and>
                    fst s ! (i + 1) = fst s ! i + dt)"
    using time_loop_invariant[OF s] nt by simp
  have run: "evolv_adv_burgers xx hh nt a cfl_cut (ddx_of sel) bnd_type (l, r) = Inr (fst s, snd s)"
    using init s by (simp add: evolv_adv_burgers_def time_loop_def)
  have steps: "\<exists>dt rhs u_next.
         step_adv_burgers xx (snd s ! i) a cfl_cut (ddx_of sel) = Inr (dt, rhs) \<and>
         bcast (+) (snd s ! i) (map (\<lambda>r. r * dt) rhs) = Inr u_next \<and>
         bnd_fix bnd_type (l, r) u_next = Inr (snd s ! (i + 1)) \<and>
         fst s ! (i + 1) = fst s ! i + dt" if "i < nt - 1" for i
  proof -
    from inv that obtain dt v where v: "?scheme (snd s ! i) = Inr (dt, v)"
      "set_col ?N v = Inr (snd s ! (i + 1))" "fst s ! (i + 1) = fst s ! i + dt" by blast
    from with_bnd_Inr[OF v(1)] obtain w where
      w: "adv_burgers_next xx a cfl_cut (ddx_of sel) (snd s ! i) = Inr (dt, w)"
         "bnd_fix bnd_type (l, r) w = Inr v" by blast
    from adv_burgers_next_Inr[OF w(1)] obtain rhs where
      rhs: "step_adv_burgers xx (snd s ! i) a cfl_cut (ddx_of sel) = Inr (dt, rhs)"
           "bcast (+) (snd s ! i) (map (\<lambda>r. r * dt) rhs) = Inr w" by blast
    have "length (snd s ! i) = ?N" using cols inv that nt by simp
    then have "length w = ?N" using rhs(2) adv_burgers_next_ok[OF assms(1,3), of "snd s ! i" cfl_cut sel] w(1)
      by auto
    then have "length v = ?N" using bnd_fix_ok[OF assms(4,5), of w bnd_type] assms(6) w(2) by auto
    then have "snd s ! (i + 1) = v" using v(2) by simp
    then show ?thesis using rhs w v by auto
  qed
  show ?thesis using run inv cols steps nt by (intro exI[of _ "fst s"] exI[of _ "snd s"]) simp
qed


theorem evolv_adv_burgers_run_witness:
  "2 \<le> length [Fin 0, Fin 1, Fin 2] \<and>
   length [Fin 1, Fin 2, Fin 3] = length [Fin 0, Fin 1, Fin 2] \<and>
   fits (Scalar (Fin (- 1))) (length [Fin 0, Fin 1, Fin 2]) \<and>
   (0::int) \<le> 0 \<and> (0::int) \<le> 1 \<and> nat 0 + nat 1 < length [Fin 0, Fin 1, Fin 2] \<and> (2::nat) \<le> 3 \<and>
   (\<exists>t unnt.
      evolv_adv_burgers [Fin 0, Fin 1, Fin 2] [Fin 1, Fin 2, Fin 3] 3 (Scalar (Fin (- 1)))
        (Fin (98/100)) (ddx_of Downwind) Wrap (0, 1) = Inr (t, unnt) \<and>
      t = [Fin 0, Fin (49/50), Fin (49/25)] \<and>
      unnt = [[Fin 1, Fin 2, Fin 3],
              [Fin (99/50), Fin (149/50), Fin (99/50)],
              [Fin (74/25), Fin 2, Fin (74/25)]] \<and>
      length t = 3 \<and> length unnt = 3 \<and> t ! 0 = Fin 0 \<and> unnt ! 0 = [Fin 1, Fin 2, Fin 3])"
proof -
  have run: "evolv_adv_burgers [Fin 0, Fin 1, Fin 2] [Fin 1, Fin 2, Fin 3] 3 (Scalar (Fin (- 1)))
        (Fin (98/100)) (ddx_of Downwind) Wrap (0, 1)
      = Inr ([Fin 0, Fin (49/50), Fin (49/25)],
             [[Fin 1, Fin 2, Fin 3],
              [Fin (99/50), Fin (149/50), Fin (99/50)],
              [Fin (74/25), Fin 2, Fin (74/25)]])"
    by code_simp
  from evolv_adv_burgers_run[of "[Fin 0, Fin 1, Fin 2]" "[Fin 1, Fin 2, Fin 3]"
      "Scalar (Fin (- 1))" 0 1 3 "Fin (98/100)" Downwind Wrap]
  obtain t unnt where
    "evolv_adv_burgers [Fin 0, Fin 1, Fin 2] [Fin 1, Fin 2, Fin 3] 3 (Scalar (Fin (- 1)))
        (Fin (98/100)) (ddx_of Downwind) Wrap (0, 1) = Inr (t, unnt)"
    "length t = 3" "length unnt = 3" "t ! 0 = Fin 0" "unnt ! 0 = [Fin 1, Fin 2, Fin 3]"
    by auto
  then show ?thesis using run by simp
qed

section \<open>The Lax stepper\<close>

text \<open>
  C10: two runs of \<open>evolv_Lax_uadv_burgers\<close> that differ only in the derivative
  operator selected by \<open>ddx\<close> return the same result, the same \<open>t\<close> and \<open>unnt\<close> or
  the same exception. The right-hand side computed with \<open>ddx\<close> is discarded, the step
  size depends on the field and the grid only, and on a column of the grid's width each
  of the three operators returns without raising.
\<close>

theorem evolv_Lax_uadv_burgers_ddx_independent:
  "evolv_Lax_uadv_burgers xx hh nt cfl_cut (ddx_of s1) bnd_type bnd_limits
     = evolv_Lax_uadv_burgers xx hh nt cfl_cut (ddx_of s2) bnd_type bnd_limits"
proof (cases "init_series xx hh nt")
  case (Inl e)
  then show ?thesis by (simp add: evolv_Lax_uadv_burgers_def)
next
  case (Inr s)
  from init_series_cols[OF Inr]
  have cols: "\<forall>c\<in>set (snd s). length c = length xx" and idx: "\<forall>i\<in>set [0..<nt - 1]. i < length (snd s)"
    by auto
  have "for_range (store_step (\<lambda>u. with_bnd bnd_type bnd_limits (Lax_uadv_next xx cfl_cut (ddx_of s1) u)) (length xx)) [0..<nt - 1] s
      = for_range (store_step (\<lambda>u. with_bnd bnd_type bnd_limits (Lax_uadv_next xx cfl_cut (ddx_of s2) u)) (length xx)) [0..<nt - 1] s"
    by (rule store_steps_cong[OF _ cols idx]) (simp add: Lax_uadv_next_eq)
  then show ?thesis using Inr by (simp add: evolv_Lax_uadv_burgers_def time_loop_def)
qed

text \<open>
  C9: on a grid of \<open>N \<ge> 2\<close> points with a field of \<open>N\<close> values, one of the
  library's derivative operators, margins that leave a retained slice, and \<open>nt \<ge> 2\<close>,
  \<open>evolv_Lax_uadv_burgers\<close> returns, and every pass \<open>i\<close> in \<open>[0, nt - 2]\<close> of its loop
  computes from the column \<open>u = unnt[:, i]\<close> and the step size \<open>dt\<close> returned by
  \<open>step_uadv_burgers\<close> a candidate of \<open>N\<close> values that is at every index \<open>j\<close>,
  with the neighbours taken periodically,
  \<open>u_next[j] = 1/2 (u[j+1] + u[j-1]) - (dt u[j] / (x[j+1] - x[j-1])) (u[j+1] - u[j-1])\<close>;
  the boundary fix of that candidate is stored as column \<open>i + 1\<close>, and
  \<open>t[i + 1] = t[i] + dt\<close>.
\<close>

theorem evolv_Lax_uadv_burgers_candidate:
  assumes "2 \<le> length xx" "length hh = length xx"
    and "0 \<le> l" "0 \<le> r" "nat l + nat r < length xx" "2 \<le> nt"
  shows "\<exists>t unnt. evolv_Lax_uadv_burgers xx hh nt cfl_cut (ddx_of sel) bnd_type (l, r) = Inr (t, unnt) \<and>
     length t = nt \<and> length unnt = nt \<and> t ! 0 = Fin 0 \<and> unnt ! 0 = hh \<and>
     (\<forall>i<nt - 1. \<exists>dt rhs u_next.
         step_uadv_burgers xx (unnt ! i) cfl_cut (ddx_of sel) = Inr (dt, rhs) \<and>
         length u_next = length xx \<and>
         (\<forall>j<length xx. u_next ! j =
            Fin (1/2) * (unnt ! i ! ((j + 1) mod length xx) + unnt ! i ! ((j + length xx - 1) mod length xx))
            - (dt * unnt ! i ! j / (xx ! ((j + 1) mod length xx) - xx ! ((j + length xx - 1) mod length xx)))
              * (unnt ! i ! ((j + 1) mod length xx) - unnt ! i ! ((j + length xx - 1) mod length xx))) \<and>
         bnd_fix bnd_type (l, r) u_next = Inr (unnt ! (i + 1)) \<and>
         t ! (i + 1) = t ! i + dt)"
proof -
  let ?N = "length xx"
  let ?scheme = "\<lambda>u. with_bnd bnd_type (l, r) (Lax_uadv_next xx cfl_cut (ddx_of sel) u)"
  let ?s0 = "(replicate nt (Fin 0), (replicate nt (replicate ?N (Fin 0)))[0 := hh])"
  have nt: "0 < nt" using assms(6) by simp
  have init: "init_series xx hh nt = Inr ?s0" using init_series_Inr[OF nt assms(2)] .
  have cols0: "\<forall>c\<in>set (snd ?s0). length c = ?N"
    using init_series_cols[OF init] by blast
  have ok: "\<exists>dt v. ?scheme u = Inr (dt, v) \<and> length v = ?N" if "length u = ?N" for u
  proof -
    from Lax_uadv_next_ok[OF assms(1) that] obtain dt where
      v: "Lax_uadv_next xx cfl_cut (ddx_of sel) u = Inr (dt, Lax_u_next xx u dt)"
         "length (Lax_u_next xx u dt) = ?N" by blast
    have "nat l + nat r < length (Lax_u_next xx u dt)" using assms(5) v(2) by simp
    from with_bnd_ok[OF v(1) assms(3,4) this, of bnd_type] v(2) show ?thesis by auto
  qed
  from time_loop_total[of ?N ?scheme ?s0 "nt - 1", OF ok cols0] nt
  obtain s where s: "for_range (store_step ?scheme ?N) [0..<nt - 1] ?s0 = Inr s"
    and cols: "\<forall>c\<in>set (snd s). length c = ?N" by auto
  have inv: "length (fst s) = length (fst ?s0) \<and> length (snd s) = length (snd ?s0) \<and>
         fst s ! 0 = fst ?s0 ! 0 \<and> snd s ! 0 = snd ?s0 ! 0 \<and>
         (\<forall>k>nt - 1. fst s ! k = fst ?s0 ! k \<and> snd s ! k = snd ?s0 ! k) \<and>
         (\<forall>i<nt - 1. \<exists>dt v. ?scheme (snd s ! i) = Inr (dt, v) \<and>
                    set_col ?N v = Inr (snd s ! (i + 1)) \<and>
                    fst s ! (i + 1) = fst s ! i + dt)"
    using time_loop_invariant[OF s] nt by simp
  have run: "evolv_Lax_uadv_burgers xx hh nt cfl_cut (ddx_of sel) bnd_type (l, r) = Inr (fst s, snd s)"
    using init s by (simp add: evolv_Lax_uadv_burgers_def time_loop_def)
  have steps: "\<exists>dt rhs u_next.
         step_uadv_burgers xx (snd s ! i) cfl_cut (ddx_of sel) = Inr (dt, rhs) \<and>
         length u_next = ?N \<and>
         (\<forall>j<?N. u_next ! j =
            Fin (1/2) * (snd s ! i ! ((j + 1) mod ?N) + snd s ! i ! ((j + ?N - 1) mod ?N))
            - (dt * snd s ! i ! j / (xx ! ((j + 1) mod ?N) - xx ! ((j + ?N - 1) mod ?N)))
              * (snd s ! i ! ((j + 1) mod ?N) - snd s ! i ! ((j + ?N - 1) mod ?N))) \<and>
         bnd_fix bnd_type (l, r) u_next = Inr (snd s ! (i + 1)) \<and>
         fst s ! (i + 1) = fst s ! i + dt" if "i < nt - 1" for i
  proof -
    from inv that obtain dt v where v: "?scheme (snd s ! i) = Inr (dt, v)"
      "set_col ?N v = Inr (snd s ! (i + 1))" "fst s ! (i + 1) = fst s ! i + dt" by blast
    from with_bnd_Inr[OF v(1)] obtain w where
      w: "Lax_uadv_next xx cfl_cut (ddx_of sel) (snd s ! i) = Inr (dt, w)"
         "bnd_fix bnd_type (l, r) w = Inr v" by blast
    from Lax_uadv_next_Inr[OF w(1)] obtain rhs where
      rhs: "step_uadv_burgers xx (snd s ! i) cfl_cut (ddx_of sel) = Inr (dt, rhs)"
           "w = Lax_u_next xx (snd s ! i) dt" by blast
    have lu: "length (snd s ! i) = ?N" using cols inv that nt by simp
    have lw: "length w = ?N" using rhs(2) lu by (simp add: Lax_u_next_def)
    then have "length v = ?N" using bnd_fix_ok[OF assms(3,4), of w bnd_type] assms(5) w(2) by auto
    then have col: "snd s ! (i + 1) = v" using v(2) by simp
    have formula: "\<forall>j<?N. w ! j =
            Fin (1/2) * (snd s ! i ! ((j + 1) mod ?N) + snd s ! i ! ((j + ?N - 1) mod ?N))
            - (dt * snd s ! i ! j / (xx ! ((j + 1) mod ?N) - xx ! ((j + ?N - 1) mod ?N)))
              * (snd s ! i ! ((j + 1) mod ?N) - snd s ! i ! ((j + ?N - 1) mod ?N))"
      using Lax_u_next_nth[OF lu] rhs(2) by simp
    show ?thesis using rhs(1) lw formula w(2) col v(3) by blast
  qed
  show ?thesis using run inv steps nt by (intro exI[of _ "fst s"] exI[of _ "snd s"]) simp
qed

theorem evolv_Lax_uadv_burgers_candidate_witness:
  "2 \<le> length [Fin 0, Fin 1, Fin 2] \<and>
   length [Fin 1, Fin 2, Fin 3] = length [Fin 0, Fin 1, Fin 2] \<and>
   (0::int) \<le> 0 \<and> (0::int) \<le> 1 \<and> nat 0 + nat 1 < length [Fin 0, Fin 1, Fin 2] \<and> (2::nat) \<le> 2 \<and>
   (\<exists>t unnt dt rhs u_next.
      evolv_Lax_uadv_burgers [Fin 0, Fin 1, Fin 2] [Fin 1, Fin 2, Fin 3] 2
        (Fin (98/100)) (ddx_of Downwind) Wrap (0, 1) = Inr (t, unnt) \<and>
      t = [Fin 0, Fin (1/3)] \<and>
      unnt = [[Fin 1, Fin 2, Fin 3], [Fin (13/6), Fin (4/3), Fin (13/6)]] \<and>
      step_uadv_burgers [Fin 0, Fin 1, Fin 2] (unnt ! 0) (Fin (98/100)) (ddx_of Downwind)
        = Inr (dt, rhs) \<and>
      dt = Fin (1/3) \<and>
      u_next ! 0 = Fin (13/6) \<and> u_next ! 1 = Fin (4/3) \<and> u_next ! 2 = Fin (1/2) \<and>
      bnd_fix Wrap (0, 1) u_next = Inr (unnt ! 1) \<and>
      t ! 1 = t ! 0 + dt)"
proof -
  have run: "evolv_Lax_uadv_burgers [Fin 0, Fin 1, Fin 2] [Fin 1, Fin 2, Fin 3] 2
        (Fin (98/100)) (ddx_of Downwind) Wrap (0, 1)
      = Inr ([Fin 0, Fin (1/3)], [[Fin 1, Fin 2, Fin 3], [Fin (13/6), Fin (4/3), Fin (13/6)]])"
    by code_simp
  have st: "step_uadv_burgers [Fin 0, Fin 1, Fin 2] [Fin 1, Fin 2, Fin 3] (Fin (98/100)) (ddx_of Downwind)
      = Inr (Fin (1/3), [Fin (- 1), Fin (- 2), Fin (- 3)])"
    by code_simp
  let ?xx = "[Fin 0, Fin 1, Fin 2]"
  have h1: "2 \<le> length ?xx" by simp
  have h2: "length [Fin 1, Fin 2, Fin 3] = length ?xx" by simp
  have h3: "(0::int) \<le> 0" by simp
  have h4: "(0::int) \<le> 1" by simp
  have h5: "nat 0 + nat 1 < length ?xx" by simp
  have h6: "(2::nat) \<le> 2" by simp
  from evolv_Lax_uadv_burgers_candidate[OF h1 h2 h3 h4 h5 h6, of "Fin (98/100)" Downwind Wrap]
  obtain t unnt where r:
    "evolv_Lax_uadv_burgers ?xx [Fin 1, Fin 2, Fin 3] 2
        (Fin (98/100)) (ddx_of Downwind) Wrap (0, 1) = Inr (t, unnt)"
    and steps: "\<forall>i<2 - 1. \<exists>dt rhs u_next.
         step_uadv_burgers ?xx (unnt ! i) (Fin (98/100)) (ddx_of Downwind) = Inr (dt, rhs) \<and>
         length u_next = length ?xx \<and>
         (\<forall>j<length ?xx. u_next ! j =
            Fin (1/2) * (unnt ! i ! ((j + 1) mod length ?xx) + unnt ! i ! ((j + length ?xx - 1) mod length ?xx))
            - (dt * unnt ! i ! j / (?xx ! ((j + 1) mod length ?xx) - ?xx ! ((j + length ?xx - 1) mod length ?xx)))
              * (unnt ! i ! ((j + 1) mod length ?xx) - unnt ! i ! ((j + length ?xx - 1) mod length ?xx))) \<and>
         bnd_fix Wrap (0, 1) u_next = Inr (unnt ! (i + 1)) \<and>
         t ! (i + 1) = t ! i + dt"
    by (elim exE conjE)
  have tu: "t = [Fin 0, Fin (1/3)]"
    "unnt = [[Fin 1, Fin 2, Fin 3], [Fin (13/6), Fin (4/3), Fin (13/6)]]"
    using r run by simp_all
  have i0: "(0::nat) < 2 - 1" by simp
  from mp[OF spec[OF steps, of 0] i0] obtain dt rhs u_next where
    a: "step_uadv_burgers ?xx (unnt ! 0) (Fin (98/100)) (ddx_of Downwind) = Inr (dt, rhs)"
    and f: "\<forall>j<length ?xx. u_next ! j =
            Fin (1/2) * (unnt ! 0 ! ((j + 1) mod length ?xx) + unnt ! 0 ! ((j + length ?xx - 1) mod length ?xx))
            - (dt * unnt ! 0 ! j / (?xx ! ((j + 1) mod length ?xx) - ?xx ! ((j + length ?xx - 1) mod length ?xx)))
              * (unnt ! 0 ! ((j + 1) mod length ?xx) - unnt ! 0 ! ((j + length ?xx - 1) mod length ?xx))"
    and b: "bnd_fix Wrap (0, 1) u_next = Inr (unnt ! (0 + 1))" "t ! (0 + 1) = t ! 0 + dt"
    by (elim exE conjE)
  have dt: "dt = Fin (1/3)" using a st tu by simp
  have j0: "(0::nat) < length ?xx" and j1: "(1::nat) < length ?xx" and j2: "(2::nat) < length ?xx"
    by simp_all
  have k0: "(0 + 1) mod length ?xx = 1" "(0 + length ?xx - 1) mod length ?xx = 2" by simp_all
  have k1: "(1 + 1) mod length ?xx = 2" "(1 + length ?xx - 1) mod length ?xx = 0" by simp_all
  have k2: "(2 + 1) mod length ?xx = 0" "(2 + length ?xx - 1) mod length ?xx = 1" by simp_all
  have c0: "u_next ! 0 = Fin (13/6)"
    using mp[OF spec[OF f, of 0] j0] unfolding dt tu k0 by simp
  have c1: "u_next ! 1 = Fin (4/3)"
    using mp[OF spec[OF f, of 1] j1] unfolding dt tu k1 by simp
  have c2: "u_next ! 2 = Fin (1/2)"
    using mp[OF spec[OF f, of 2] j2] unfolding dt tu k2 by simp
  have b': "bnd_fix Wrap (0, 1) u_next = Inr (unnt ! 1)" "t ! 1 = t ! 0 + dt"
    using b by simp_all
  have "\<exists>t unnt dt rhs u_next.
      evolv_Lax_uadv_burgers [Fin 0, Fin 1, Fin 2] [Fin 1, Fin 2, Fin 3] 2
        (Fin (98/100)) (ddx_of Downwind) Wrap (0, 1) = Inr (t, unnt) \<and>
      t = [Fin 0, Fin (1/3)] \<and>
      unnt = [[Fin 1, Fin 2, Fin 3], [Fin (13/6), Fin (4/3), Fin (13/6)]] \<and>
      step_uadv_burgers [Fin 0, Fin 1, Fin 2] (unnt ! 0) (Fin (98/100)) (ddx_of Downwind)
        = Inr (dt, rhs) \<and>
      dt = Fin (1/3) \<and>
      u_next ! 0 = Fin (13/6) \<and> u_next ! 1 = Fin (4/3) \<and> u_next ! 2 = Fin (1/2) \<and>
      bnd_fix Wrap (0, 1) u_next = Inr (unnt ! 1) \<and>
      t ! 1 = t ! 0 + dt"
    by (intro exI conjI) (rule r tu a dt c0 c1 c2 b')+
  then show ?thesis by (intro conjI) (rule h1 h2 h3 h4 h5 h6)+
qed

section \<open>CFL estimators\<close>

text \<open>
  C7 (as amended): the CFL estimators have no domain error. In exact arithmetic, on
  every strictly increasing grid of at least two points, \<open>cfl_adv_burger\<close> and
  \<open>cfl_diff_burger\<close> given a coefficient that is zero everywhere (the scalar 0 or an
  all-zero array of the grid's length) raise nothing and return plus infinity: numpy
  divides the positive spacings, or their positive squares, by zero, and the minimum of
  the infinite quotients is infinite. The grid is a list of reals and the spacings and
  their squares are not rounded; in doubles a squared spacing can underflow to zero
  (on the grid \<open>[0, 2^-600, 2^-599]\<close>), and \<open>cfl_diff_burger\<close> then returns
  not-a-number, again without raising.
\<close>

theorem cfl_zero_coefficient_returns_infinity:
  assumes "sorted_wrt (<) xs" "2 \<le> length xs"
    and "a = Scalar (Fin 0) \<or> a = PerPoint (replicate (length xs) (Fin 0))"
  shows "cfl_adv_burger a (map Fin xs) = Inr PInf \<and> cfl_diff_burger a (map Fin xs) = Inr PInf"
proof -
  from gradient_increasing[OF assms(1,2)] obtain gs where
    g: "gradient (map Fin xs) = Inr (map Fin gs)" and len: "length gs = length xs"
    and pos: "\<forall>g\<in>set gs. 0 < g" by blast
  have ne: "gs \<noteq> []" using len assms(2) by auto
  have nz: "0 < gs ! i" if "i < length gs" for i using pos that by simp
  have adv: "arr_coef (/) (map Fin gs) (coef_map abs a) = Inr (map (\<lambda>g. PInf) gs)"
  proof (cases "a = Scalar (Fin 0)")
    case True
    then show ?thesis using pos by auto
  next
    case False
    then have a: "a = PerPoint (replicate (length xs) (Fin 0))" using assms(3) by simp
    have "map2 (/) (map Fin gs) (replicate (length xs) (Fin 0)) = map (\<lambda>g. PInf) gs"
    proof (rule nth_equalityI)
      show "length (map2 (/) (map Fin gs) (replicate (length xs) (Fin 0))) = length (map (\<lambda>g. PInf) gs)"
        using len by simp
    next
      fix i assume "i < length (map2 (/) (map Fin gs) (replicate (length xs) (Fin 0)))"
      then have i: "i < length gs" by simp
      have "Fin (gs ! i) / Fin 0 = PInf" using nz[OF i] by simp
      then show "map2 (/) (map Fin gs) (replicate (length xs) (Fin 0)) ! i = map (\<lambda>g. PInf) gs ! i"
        using i len by simp
    qed
    then show ?thesis using a len by (simp add: bcast_same)
  qed
  have diff: "arr_coef (/) (map (\<lambda>d. d * d) (map Fin gs)) (coef_map (\<lambda>v. Fin 2 * \<bar>v\<bar>) a)
                = Inr (map (\<lambda>g. PInf) gs)"
  proof (cases "a = Scalar (Fin 0)")
    case True
    then show ?thesis using pos by auto
  next
    case False
    then have a: "a = PerPoint (replicate (length xs) (Fin 0))" using assms(3) by simp
    have "map2 (/) (map (\<lambda>d. d * d) (map Fin gs)) (replicate (length xs) (Fin 0))
            = map (\<lambda>g. PInf) gs"
    proof (rule nth_equalityI)
      show "length (map2 (/) (map (\<lambda>d. d * d) (map Fin gs)) (replicate (length xs) (Fin 0)))
              = length (map (\<lambda>g. PInf) gs)"
        using len by simp
    next
      fix i assume "i < length (map2 (/) (map (\<lambda>d. d * d) (map Fin gs)) (replicate (length xs) (Fin 0)))"
      then have i: "i < length gs" by simp
      have "Fin (gs ! i) * Fin (gs ! i) / Fin 0 = PInf" using nz[OF i] by simp
      then show "map2 (/) (map (\<lambda>d. d * d) (map Fin gs)) (replicate (length xs) (Fin 0)) ! i
                   = map (\<lambda>g. PInf) gs ! i"
        using i len by simp
    qed
    then show ?thesis using a len by (simp add: bcast_same)
  qed
  have "np_min (map (\<lambda>g. PInf) gs) = Inr PInf"
    using ne by (intro np_min_all_PInf) auto
  then show ?thesis using g adv diff by (simp add: cfl_adv_burger_def cfl_diff_burger_def)
qed

theorem cfl_zero_coefficient_returns_infinity_witness:
  "sorted_wrt (<) [0, 1, 2 :: real] \<and> 2 \<le> length [0, 1, 2 :: real] \<and>
   cfl_adv_burger (PerPoint (replicate (length [0, 1, 2 :: real]) (Fin 0))) (map Fin [0, 1, 2]) = Inr PInf \<and>
   cfl_diff_burger (PerPoint (replicate (length [0, 1, 2 :: real]) (Fin 0))) (map Fin [0, 1, 2]) = Inr PInf"
  using cfl_zero_coefficient_returns_infinity[of "[0, 1, 2]"
      "PerPoint (replicate (length [0, 1, 2 :: real]) (Fin 0))"]
  by simp

text \<open>
  On the grid \<open>[0, 1, 2]\<close> both estimators return a value for the scalar 0 and for the
  all-zero array, where the claim has an error.
\<close>

theorem cfl_zero_coefficient_no_error:
  "cfl_adv_burger (Scalar (Fin 0)) [Fin 0, Fin 1, Fin 2] = Inr PInf
   \<and> cfl_diff_burger (Scalar (Fin 0)) [Fin 0, Fin 1, Fin 2] = Inr PInf
   \<and> cfl_adv_burger (PerPoint [Fin 0, Fin 0, Fin 0]) [Fin 0, Fin 1, Fin 2] = Inr PInf
   \<and> cfl_diff_burger (PerPoint [Fin 0, Fin 0, Fin 0]) [Fin 0, Fin 1, Fin 2] = Inr PInf"
  by code_simp

text \<open>
  C3: every advective stepper is claimed to accept a step size equal to the CFL estimate
  \<open>min(dx/|a|)\<close> scaled by the caller's safety factor \<open>cfl_cut\<close>, so that
  \<open>max|a| dt / dx\<close> stays within the safety factor, in particular in
  \<open>evolv_Rie_uadv_burgers\<close>. \<open>step_adv_burgers\<close> scales by \<open>cfl_cut\<close>;
  \<open>step_uadv_burgers\<close> and \<open>evolv_Rie_uadv_burgers\<close> take \<open>cfl_cut\<close> and never read
  it. On the grid \<open>[0, 1, 2]\<close> with the field \<open>[1, 2, 3]\<close> and \<open>cfl_cut = 0.98\<close> the
  Riemann stepper advances by \<open>dt = 1/3\<close>, the unscaled estimate for the wave speeds
  \<open>[2, 3, 3]\<close>, and \<open>max|a| dt / dx = 1\<close> exceeds 0.98; \<open>step_uadv_burgers\<close> returns
  \<open>1/3\<close> as well, where \<open>step_adv_burgers\<close> with the same per-point coefficient
  returns \<open>0.98 / 3\<close>.
\<close>

theorem uadv_step_size_not_scaled_by_cfl_cut:
  "evolv_Rie_uadv_burgers [Fin 0, Fin 1, Fin 2] [Fin 1, Fin 2, Fin 3] 2 (Fin (98/100))
       deriv_upw Wrap (1, 0)
     = Inr ([Fin 0, Fin (1/3)], [[Fin 1, Fin 2, Fin 3], [Fin (7/4), Fin (3/2), Fin (7/4)]])
   \<and> step_uadv_burgers [Fin 0, Fin 1, Fin 2] [Fin 1, Fin 2, Fin 3] (Fin (98/100)) deriv_dnw
     = Inr (Fin (1/3), [Fin (- 1), Fin (- 2), Fin (- 3)])
   \<and> step_adv_burgers [Fin 0, Fin 1, Fin 2] [Fin 1, Fin 2, Fin 3] (PerPoint [Fin 1, Fin 2, Fin 3])
        (Fin (98/100)) deriv_dnw
     = Inr (Fin (1/3) * Fin (98/100), [Fin (- 1), Fin (- 2), Fin (- 3)])
   \<and> Fin (98/100) < Fin 3 * Fin (1/3) / Fin 1"
  by code_simp

section \<open>The Hyman integrator called twice\<close>

text \<open>
  C6: \<open>hyman\<close> called with no prior state (\<open>fold\<close> and \<open>dtold\<close> omitted) is claimed
  not to raise and to return a field of the input's length, and so is a second call
  that is given the state returned by the first. The code has a self-starting branch for
  the first call and selects it with \<open>np.any(fold) == None\<close>. With numpy 2.0 or later
  that test is false for \<open>fold = None\<close>, the branch of the later calls runs, and
  \<open>dth / dtold\<close> with \<open>dtold = None\<close> raises \<open>TypeError\<close>: on the grid \<open>[0, 1, 2]\<close>
  with the field \<open>[1, 2, 3]\<close>, \<open>dth = 0.1\<close>, \<open>a = 1\<close> and the defaults
  \<open>cfl_cut = 0.8\<close>, \<open>deriv_dnw\<close>, \<open>wrap\<close>, \<open>[0, 1]\<close>, the first call raises. With
  numpy before 2.0 the same call takes the self-starting branch and returns the field
  \<open>[2.4, 1.9, 2.4]\<close> with the state \<open>([1, 2, 3], 0.1)\<close>, and the second call, given
  that state, returns as well.
\<close>

theorem hyman_first_call_raises_TypeError:
  "hyman Numpy2 [Fin 0, Fin 1, Fin 2] [Fin 1, Fin 2, Fin 3] (Fin (1/10)) (Scalar (Fin 1)) None None
        (Fin (8/10)) deriv_dnw Wrap (0, 1)
      = Inl TypeError
   \<and> hyman Numpy1 [Fin 0, Fin 1, Fin 2] [Fin 1, Fin 2, Fin 3] (Fin (1/10)) (Scalar (Fin 1)) None None
        (Fin (8/10)) deriv_dnw Wrap (0, 1)
      = Inr ([Fin (12/5), Fin (19/10), Fin (12/5)], [Fin 1, Fin 2, Fin 3], Fin (1/10))
   \<and> hyman Numpy2 [Fin 0, Fin 1, Fin 2] [Fin (12/5), Fin (19/10), Fin (12/5)] (Fin (1/10))
        (Scalar (Fin 1)) (Some [Fin 1, Fin 2, Fin 3]) (Some (Fin (1/10)))
        (Fin (8/10)) deriv_dnw Wrap (0, 1)
      = Inr ([Fin (266/125), Fin (239/125), Fin (266/125)],
             [Fin (12/5), Fin (19/10), Fin (12/5)], Fin (1/10))"
  by code_simp

section \<open>The Newton iteration in every time step\<close>

text \<open>
  C5 (as amended): in a run of \<open>Newton_Raphson\<close> or \<open>Newton_Raphson_u\<close> with
  \<open>nt \<ge> 2\<close>, a tolerance \<open>toll \<le> 1\<close> and a cap \<open>ncount \<ge> 1\<close> (on a grid of at least
  two points, with a field of the grid's width, a scalar coefficient and margins that
  leave a retained slice), every time step starts with the error variable at 1, hence
  not converged, and executes at least one and at most \<open>ncount\<close> Newton passes.
  Reaching the cap without reaching the tolerance does not abort the run. The run
  returns after all \<open>nt - 1\<close> steps, and for every step \<open>it\<close> the iterate of the last
  pass is stored as \<open>unnt[:, it]\<close>, its error in \<open>errt[it]\<close>, the number of passes in
  \<open>countt[it]\<close>, \<open>t[it] = t[it - 1] + dt\<close>, and the iteration stopped because the cap
  was reached or the error was no longer at or above the tolerance. The one way the run
  stops early is an exception \<open>e\<close> of the matrix inversion inside the run: there are a
  time step \<open>it\<close>, reached after the steps before it have been taken, and a number
  \<open>k\<close> of passes below the cap, such that the \<open>k\<close> first passes of step \<open>it\<close> all
  missed the tolerance and \<open>np.linalg.inv\<close> raises \<open>e\<close> on the Jacobian of the guess
  they have led to. The inversion \<open>np.linalg.inv\<close> enters as a parameter that returns a
  matrix of its argument's shape or raises.
\<close>

theorem Newton_Raphson_steps_recorded:
  assumes "\<And>J K. square (length xx) J \<Longrightarrow> np_inv J = Inr K \<Longrightarrow> square (length xx) K"
    and "2 \<le> length xx" "length hh = length xx"
    and "0 \<le> l" "0 \<le> r" "nat l + nat r < length xx"
    and "2 \<le> nt" "toll \<le> Fin 1" "1 \<le> ncount"
  shows "(case Newton_Raphson np_inv xx hh (Scalar a) dt nt toll ncount bnd_type (l, r) of
           Inl e \<Rightarrow>
             \<exists>it s k ug. 1 \<le> it \<and> it < nt \<and>
               nr_before
                 (\<lambda>uo ug. nr_pass np_inv toll bnd_type (l, r)
                            (jacobian xx ug (Scalar a) dt) (NR_f xx ug uo (Scalar a) dt) ug)
                 xx hh dt nt toll ncount it = Inr s \<and>
               int k < ncount \<and>
               nr_guess
                 (\<lambda>g. nr_pass np_inv toll bnd_type (l, r)
                         (jacobian xx g (Scalar a) dt)
                         (NR_f xx g (nr_unnt s ! (it - 1)) (Scalar a) dt) g)
                 toll k (nr_unnt s ! (it - 1)) = Some ug \<and>
               (\<exists>J. jacobian xx ug (Scalar a) dt = Inr J \<and> np_inv J = Inl e)
         | Inr res \<Rightarrow>
             (case res of (t, unnt, errt, countt) \<Rightarrow>
                length t = nt \<and> length unnt = nt \<and> length errt = nt \<and> length countt = nt \<and>
                t ! 0 = Fin 0 \<and> unnt ! 0 = hh) \<and>
             (\<forall>it. 1 \<le> it \<and> it < nt \<longrightarrow>
                nr_recorded
                  (\<lambda>uo ug. nr_pass np_inv toll bnd_type (l, r)
                             (jacobian xx ug (Scalar a) dt) (NR_f xx ug uo (Scalar a) dt) ug)
                  dt toll ncount res it)) \<and>
         (case Newton_Raphson_u np_inv xx hh dt nt toll ncount bnd_type (l, r) of
           Inl e \<Rightarrow>
             \<exists>it s k ug. 1 \<le> it \<and> it < nt \<and>
               nr_before
                 (\<lambda>uo ug. nr_pass np_inv toll bnd_type (l, r)
                            (jacobian_u xx ug dt) (NR_f_u xx ug uo dt) ug)
                 xx hh dt nt toll ncount it = Inr s \<and>
               int k < ncount \<and>
               nr_guess
                 (\<lambda>g. nr_pass np_inv toll bnd_type (l, r)
                         (jacobian_u xx g dt) (NR_f_u xx g (nr_unnt s ! (it - 1)) dt) g)
                 toll k (nr_unnt s ! (it - 1)) = Some ug \<and>
               (\<exists>J. jacobian_u xx ug dt = Inr J \<and> np_inv J = Inl e)
         | Inr res \<Rightarrow>
             (case res of (t, unnt, errt, countt) \<Rightarrow>
                length t = nt \<and> length unnt = nt \<and> length errt = nt \<and> length countt = nt \<and>
                t ! 0 = Fin 0 \<and> unnt ! 0 = hh) \<and>
             (\<forall>it. 1 \<le> it \<and> it < nt \<longrightarrow>
                nr_recorded
                  (\<lambda>uo ug. nr_pass np_inv toll bnd_type (l, r)
                             (jacobian_u xx ug dt) (NR_f_u xx ug uo dt) ug)
                  dt toll ncount res it))"
proof -
  let ?N = "length xx"
  have N: "0 < ?N" using assms(2) by auto
  have nc: "0 < ncount" and nt: "0 < nt" using assms(7,9) by simp_all
  have ok1: "(\<exists>e. nr_pass np_inv toll bnd_type (l, r)
                      (jacobian xx ug (Scalar a) dt) (NR_f xx ug uo (Scalar a) dt) ug = Inl e \<and>
                    (\<exists>J. jacobian xx ug (Scalar a) dt = Inr J \<and> np_inv J = Inl e)) \<or>
             (\<exists>err un. nr_pass np_inv toll bnd_type (l, r)
                      (jacobian xx ug (Scalar a) dt) (NR_f xx ug uo (Scalar a) dt) ug = Inr (err, un) \<and>
                    length un = ?N)"
    if "length uo = ?N" "length ug = ?N" for uo ug
  proof -
    from jacobian_ok[OF assms(2), where un = ug and a = a and dt = dt] obtain J where
      J: "jacobian xx ug (Scalar a) dt = Inr J" "square ?N J" by blast
    from NR_f_ok[OF assms(2), where ug = ug and uo = uo and a = a and dt = dt] that obtain ff where
      ff: "NR_f xx ug uo (Scalar a) dt = Inr ff" "length ff = ?N" by auto
    have "(\<exists>e. nr_pass np_inv toll bnd_type (l, r)
                      (jacobian xx ug (Scalar a) dt) (NR_f xx ug uo (Scalar a) dt) ug = Inl e \<and>
                    np_inv J = Inl e) \<or>
             (\<exists>err un. nr_pass np_inv toll bnd_type (l, r)
                      (jacobian xx ug (Scalar a) dt) (NR_f xx ug uo (Scalar a) dt) ug = Inr (err, un) \<and>
                    length un = ?N)"
      by (rule nr_pass_ok[OF assms(1)[OF J(2)] J ff that(2) N assms(4,5,6)])
    then show ?thesis using J(1) by blast
  qed
  have ok2: "(\<exists>e. nr_pass np_inv toll bnd_type (l, r)
                      (jacobian_u xx ug dt) (NR_f_u xx ug uo dt) ug = Inl e \<and>
                    (\<exists>J. jacobian_u xx ug dt = Inr J \<and> np_inv J = Inl e)) \<or>
             (\<exists>err un. nr_pass np_inv toll bnd_type (l, r)
                      (jacobian_u xx ug dt) (NR_f_u xx ug uo dt) ug = Inr (err, un) \<and>
                    length un = ?N)"
    if "length uo = ?N" "length ug = ?N" for uo ug
  proof -
    from jacobian_u_ok[OF assms(2) that(2), where dt = dt] obtain J where
      J: "jacobian_u xx ug dt = Inr J" "square ?N J" by blast
    from NR_f_u_ok[OF assms(2), where ug = ug and uo = uo and dt = dt] that obtain ff where
      ff: "NR_f_u xx ug uo dt = Inr ff" "length ff = ?N" by auto
    have "(\<exists>e. nr_pass np_inv toll bnd_type (l, r)
                      (jacobian_u xx ug dt) (NR_f_u xx ug uo dt) ug = Inl e \<and>
                    np_inv J = Inl e) \<or>
             (\<exists>err un. nr_pass np_inv toll bnd_type (l, r)
                      (jacobian_u xx ug dt) (NR_f_u xx ug uo dt) ug = Inr (err, un) \<and>
                    length un = ?N)"
      by (rule nr_pass_ok[OF assms(1)[OF J(2)] J ff that(2) N assms(4,5,6)])
    then show ?thesis using J(1) by blast
  qed
  show ?thesis
    unfolding Newton_Raphson_def Newton_Raphson_u_def
    using nr_run_result[where bad = "\<lambda>ug e. \<exists>J. jacobian xx ug (Scalar a) dt = Inr J \<and> np_inv J = Inl e"
            and dt = dt, OF ok1 assms(8) nc assms(3) nt]
          nr_run_result[where bad = "\<lambda>ug e. \<exists>J. jacobian_u xx ug dt = Inr J \<and> np_inv J = Inl e"
            and dt = dt, OF ok2 assms(8) nc assms(3) nt]
    by (intro conjI) assumption+
qed

text \<open>
  At the coefficient 0 the Jacobian of \<open>Newton_Raphson\<close> is the identity matrix, and so
  is that of \<open>Newton_Raphson_u\<close> on the zero field; the identity is its own inverse.
  With tolerance 0 and cap 2 the first run exhausts the cap and records the error
  \<open>1/6\<close> of its second pass.
\<close>

theorem Newton_Raphson_steps_recorded_witness:
  "2 \<le> length [Fin 0, Fin 1] \<and>
   length [Fin 5, Fin 6] = length [Fin 0, Fin 1] \<and>
   (0::int) \<le> 0 \<and> (0::int) \<le> 1 \<and> nat 0 + nat 1 < length [Fin 0, Fin 1] \<and> (2::nat) \<le> 2 \<and>
   Fin 0 \<le> Fin 1 \<and> (1::int) \<le> 2 \<and>
   Newton_Raphson (\<lambda>J. Inr J) [Fin 0, Fin 1] [Fin 5, Fin 6] (Scalar (Fin 0))
       (Fin 1) 2 (Fin 0) 2 Wrap (0, 1)
     = Inr ([Fin 0, Fin 1], [[Fin 5, Fin 6], [Fin 5, Fin 5]], [Fin 0, Fin (1/6)], [0, 2]) \<and>
   nr_recorded
     (\<lambda>uo ug. nr_pass (\<lambda>J. Inr J) (Fin 0) Wrap (0, 1)
                (jacobian [Fin 0, Fin 1] ug (Scalar (Fin 0)) (Fin 1))
                (NR_f [Fin 0, Fin 1] ug uo (Scalar (Fin 0)) (Fin 1)) ug)
     (Fin 1) (Fin 0) 2
     ([Fin 0, Fin 1], [[Fin 5, Fin 6], [Fin 5, Fin 5]], [Fin 0, Fin (1/6)], [0, 2]) 1 \<and>
   Newton_Raphson_u (\<lambda>J. Inr J) [Fin 0, Fin 1] [Fin 0, Fin 0]
       (Fin 1) 2 (Fin (1/100000)) 1 Wrap (0, 1)
     = Inr ([Fin 0, Fin 1], [[Fin 0, Fin 0], [Fin 0, Fin 0]], [Fin 0, Fin 0], [0, 1]) \<and>
   nr_recorded
     (\<lambda>uo ug. nr_pass (\<lambda>J. Inr J) (Fin (1/100000)) Wrap (0, 1)
                (jacobian_u [Fin 0, Fin 1] ug (Fin 1))
                (NR_f_u [Fin 0, Fin 1] ug uo (Fin 1)) ug)
     (Fin 1) (Fin (1/100000)) 1
     ([Fin 0, Fin 1], [[Fin 0, Fin 0], [Fin 0, Fin 0]], [Fin 0, Fin 0], [0, 1]) 1"
proof -
  have sh: "\<And>J K. square (length [Fin 0, Fin 1]) J \<Longrightarrow> (\<lambda>J. Inr J) J = Inr K
              \<Longrightarrow> square (length [Fin 0, Fin 1]) K"
    by simp
  have h1: "2 \<le> length [Fin 0, Fin 1]" by simp
  have h2: "length [Fin 5, Fin 6] = length [Fin 0, Fin 1]" by simp
  have h2': "length [Fin 0, Fin 0] = length [Fin 0, Fin 1]" by simp
  have h3: "(0::int) \<le> 0" by simp
  have h3': "(0::int) \<le> 1" by simp
  have h4: "nat 0 + nat 1 < length [Fin 0, Fin 1]" by simp
  have h5: "(2::nat) \<le> 2" by simp
  have h6: "Fin 0 \<le> Fin 1" by simp
  have h6': "Fin (1/100000) \<le> Fin 1" by simp
  have h7: "(1::int) \<le> 2" by simp
  have h7': "(1::int) \<le> 1" by simp
  have c1: "Newton_Raphson (\<lambda>J. Inr J) [Fin 0, Fin 1] [Fin 5, Fin 6] (Scalar (Fin 0))
       (Fin 1) 2 (Fin 0) 2 Wrap (0, 1)
     = Inr ([Fin 0, Fin 1], [[Fin 5, Fin 6], [Fin 5, Fin 5]], [Fin 0, Fin (1/6)], [0, 2])"
    by code_simp
  have c2: "Newton_Raphson_u (\<lambda>J. Inr J) [Fin 0, Fin 1] [Fin 0, Fin 0]
       (Fin 1) 2 (Fin (1/100000)) 1 Wrap (0, 1)
     = Inr ([Fin 0, Fin 1], [[Fin 0, Fin 0], [Fin 0, Fin 0]], [Fin 0, Fin 0], [0, 1])"
    by code_simp
  note T1 = Newton_Raphson_steps_recorded[where np_inv = "\<lambda>J. Inr J" and a = "Fin 0"
      and dt = "Fin 1" and bnd_type = Wrap, OF sh h1 h2 h3 h3' h4 h5 h6 h7, THEN conjunct1]
  note T2 = Newton_Raphson_steps_recorded[where np_inv = "\<lambda>J. Inr J" and a = "Fin 0"
      and dt = "Fin 1" and bnd_type = Wrap, OF sh h1 h2' h3 h3' h4 h5 h6' h7', THEN conjunct2]
  have r1: "nr_recorded
     (\<lambda>uo ug. nr_pass (\<lambda>J. Inr J) (Fin 0) Wrap (0, 1)
                (jacobian [Fin 0, Fin 1] ug (Scalar (Fin 0)) (Fin 1))
                (NR_f [Fin 0, Fin 1] ug uo (Scalar (Fin 0)) (Fin 1)) ug)
     (Fin 1) (Fin 0) 2
     ([Fin 0, Fin 1], [[Fin 5, Fin 6], [Fin 5, Fin 5]], [Fin 0, Fin (1/6)], [0, 2]) 1"
    using T1 unfolding c1 by simp
  have r2: "nr_recorded
     (\<lambda>uo ug. nr_pass (\<lambda>J. Inr J) (Fin (1/100000)) Wrap (0, 1)
                (jacobian_u [Fin 0, Fin 1] ug (Fin 1))
                (NR_f_u [Fin 0, Fin 1] ug uo (Fin 1)) ug)
     (Fin 1) (Fin (1/100000)) 1
     ([Fin 0, Fin 1], [[Fin 0, Fin 0], [Fin 0, Fin 0]], [Fin 0, Fin 0], [0, 1]) 1"
    using T2 unfolding c2 by simp
  show ?thesis using h1 h2 h3 h3' h4 h5 h6 h7 c1 c2 r1 r2 by blast
qed

text \<open>
  With the cap 0, or with a tolerance above 1, no pass executes in the first time step
  and the run stops there: the iterate it is to store was never assigned.
\<close>

theorem Newton_Raphson_aborts_without_a_pass:
  "Newton_Raphson (\<lambda>J. Inr J) [Fin 0, Fin 1, Fin 2] [Fin 5, Fin 6, Fin 7] (Scalar (Fin 1))
       (Fin 1) 2 (Fin (1/100000)) 0 Wrap (1, 1) = Inl UnboundLocalError \<and>
   Newton_Raphson (\<lambda>J. Inr J) [Fin 0, Fin 1, Fin 2] [Fin 5, Fin 6, Fin 7] (Scalar (Fin 1))
       (Fin 1) 2 (Fin 2) 2 Wrap (1, 1) = Inl UnboundLocalError \<and>
   Newton_Raphson_u (\<lambda>J. Inr J) [Fin 0, Fin 1, Fin 2] [Fin 5, Fin 6, Fin 7]
       (Fin 1) 2 (Fin (1/100000)) 0 Wrap (1, 1) = Inl UnboundLocalError"
  by code_simp

section \<open>The Rusanov stepper and the sum of the field\<close>

text \<open>
  C1 (as amended): on every strictly increasing grid of \<open>N \<ge> 2\<close> points (the uniform
  grids of \<open>N \<ge> 3\<close> points among them), for every initial field of \<open>N\<close> values and
  every \<open>nt \<ge> 2\<close>, \<open>evolv_Rie_uadv_burgers\<close> with the boundary policy \<open>wrap\<close> and
  margins \<open>[1, 0]\<close> returns, and at every step \<open>i\<close> in \<open>[0, nt - 2]\<close> whose column
  \<open>unnt[:, i]\<close> is finite and not identically zero the flux-differencing candidate
  \<open>u_next\<close> has exactly the sum of column \<open>i\<close>, in exact arithmetic, with a finite
  positive step size. The stored column \<open>i + 1\<close> is that candidate with entry 0
  overwritten by entry \<open>N - 1\<close>, which is what the re-padding does, so its sum is the
  sum of column \<open>i\<close> minus \<open>u_next[0]\<close> plus \<open>u_next[N - 1]\<close>.
\<close>

theorem Rie_candidate_sum_conserved:
  assumes "sorted_wrt (<) xs" "2 \<le> length xs" "length hh = length xs" "2 \<le> nt"
  shows "\<exists>t unnt.
           evolv_Rie_uadv_burgers (map Fin xs) hh nt cfl_cut ddx Wrap (1, 0) = Inr (t, unnt) \<and>
           (\<forall>i us. i < nt - 1 \<and> unnt ! i = map Fin us \<and> (\<exists>v\<in>set us. v \<noteq> 0) \<longrightarrow>
              (\<exists>dt cand.
                 Rie_uadv_next (map Fin xs) (Fin (xs ! 1 - xs ! 0)) (unnt ! i)
                   = Inr (Fin dt, map Fin cand) \<and>
                 0 < dt \<and> t ! (i + 1) = t ! i + Fin dt \<and>
                 sum_list cand = sum_list us \<and>
                 unnt ! (i + 1) = map Fin (cand[0 := cand ! (length xs - 1)]) \<and>
                 sum_list (cand[0 := cand ! (length xs - 1)])
                   = sum_list us - cand ! 0 + cand ! (length xs - 1)))"
proof -
  let ?xx = "map Fin xs"
  let ?N = "length xs"
  let ?dx = "Fin (xs ! 1 - xs ! 0)"
  let ?scheme = "\<lambda>u. with_bnd Wrap (1, 0) (Rie_uadv_next ?xx ?dx u)"
  let ?s0 = "(replicate nt (Fin 0), (replicate nt (replicate ?N (Fin 0)))[0 := hh])"
  have nt: "0 < nt" using assms(4) by simp
  have N2: "2 \<le> length ?xx" using assms(2) by simp
  have "0 < length xs" "1 < length xs" using assms(2) by auto
  then have dx: "?xx ! 1 - ?xx ! 0 = ?dx" by simp
  have init: "init_series ?xx hh nt = Inr ?s0"
    using init_series_Inr[of nt hh ?xx] nt assms(3) by simp
  have cols0: "\<forall>c\<in>set (snd ?s0). length c = ?N"
    using init_series_cols[OF init] by simp
  have ok: "\<exists>dt v. ?scheme u = Inr (dt, v) \<and> length v = ?N" if "length u = ?N" for u
  proof -
    from Rie_uadv_next_ok[OF N2, of u ?dx] that obtain dt v where
      v: "Rie_uadv_next ?xx ?dx u = Inr (dt, v)" "length v = ?N" by auto
    have "nat 1 + nat 0 < length v" using v(2) assms(2) by simp
    from with_bnd_ok[OF v(1) _ _ this, of Wrap] v(2) show ?thesis by auto
  qed
  from time_loop_total[of ?N ?scheme ?s0 "nt - 1", OF ok cols0] nt
  obtain s where s: "for_range (store_step ?scheme ?N) [0..<nt - 1] ?s0 = Inr s"
    and cols: "\<forall>c\<in>set (snd s). length c = ?N" by auto
  have inv: "\<forall>i<nt - 1. \<exists>dt v. ?scheme (snd s ! i) = Inr (dt, v) \<and>
                    set_col ?N v = Inr (snd s ! (i + 1)) \<and>
                    fst s ! (i + 1) = fst s ! i + dt"
    using time_loop_invariant[OF s] nt by simp
  have run: "evolv_Rie_uadv_burgers ?xx hh nt cfl_cut ddx Wrap (1, 0) = Inr (fst s, snd s)"
    using init s assms(2) dx by (simp add: evolv_Rie_uadv_burgers_def time_loop_def)
  have steps: "\<exists>dt cand.
                 Rie_uadv_next ?xx ?dx (snd s ! i) = Inr (Fin dt, map Fin cand) \<and>
                 0 < dt \<and> fst s ! (i + 1) = fst s ! i + Fin dt \<and>
                 sum_list cand = sum_list us \<and>
                 snd s ! (i + 1) = map Fin (cand[0 := cand ! (?N - 1)]) \<and>
                 sum_list (cand[0 := cand ! (?N - 1)]) = sum_list us - cand ! 0 + cand ! (?N - 1)"
    if "i < nt - 1 \<and> snd s ! i = map Fin us \<and> (\<exists>v\<in>set us. v \<noteq> 0)" for i us
  proof -
    from that have i: "i < nt - 1" and u: "snd s ! i = map Fin us" and nz: "\<exists>v\<in>set us. v \<noteq> 0"
      by simp_all
    have "length (snd s ! i) = ?N"
      using Rie_uadv_next_ok cols time_loop_invariant[OF s] i nt by simp
    then have lu: "length us = ?N" using u by simp
    from Rie_uadv_next_finite[OF assms(1,2) lu nz] obtain dt cand where
      c: "Rie_uadv_next ?xx ?dx (map Fin us) = Inr (Fin dt, map Fin cand)" "0 < dt"
         "length cand = ?N" "sum_list cand = sum_list us" by blast
    have "2 \<le> length (map Fin cand)" using c(3) assms(2) by simp
    from bnd_fix_wrap_1_0[OF this]
    have padded: "bnd_fix Wrap (1, 0) (map Fin cand) = Inr (map Fin (cand[0 := cand ! (?N - 1)]))"
      using c(3) assms(2) by (simp add: map_update)
    from inv i obtain dt' v where v: "?scheme (snd s ! i) = Inr (dt', v)"
      "set_col ?N v = Inr (snd s ! (i + 1))" "fst s ! (i + 1) = fst s ! i + dt'" by blast
    have "?scheme (snd s ! i) = Inr (Fin dt, map Fin (cand[0 := cand ! (?N - 1)]))"
      using c(1) padded u by (simp add: with_bnd_def)
    then have dv: "dt' = Fin dt" "v = map Fin (cand[0 := cand ! (?N - 1)])" using v(1) by simp_all
    then have next_col: "snd s ! (i + 1) = map Fin (cand[0 := cand ! (?N - 1)])"
      using v(2) c(3) by simp
    have "0 < length cand" using c(3) assms(2) by auto
    then have "sum_list (cand[0 := cand ! (?N - 1)]) = sum_list cand - cand ! 0 + cand ! (?N - 1)"
      by (rule sum_list_update_real)
    then show ?thesis using c u v(3) dv(1) next_col by auto
  qed
  show ?thesis using run steps by (intro exI[of _ "fst s"] exI[of _ "snd s"]) blast
qed

theorem Rie_candidate_sum_conserved_witness:
  "sorted_wrt (<) [0, 1, 2 :: real] \<and> 2 \<le> length [0, 1, 2 :: real] \<and>
   length (map Fin [2, 0, 1]) = length [0, 1, 2 :: real] \<and> (2::nat) \<le> 2 \<and>
   evolv_Rie_uadv_burgers (map Fin [0, 1, 2]) (map Fin [2, 0, 1]) 2 (Fin (98/100)) deriv_upw
       Wrap (1, 0)
     = Inr ([Fin 0, Fin (1/2)], [map Fin [2, 0, 1], map Fin [3/4, 13/8, 3/4]]) \<and>
   (\<exists>dt cand.
      Rie_uadv_next (map Fin [0, 1, 2]) (Fin ([0, 1, 2] ! 1 - [0, 1, 2] ! 0)) (map Fin [2, 0, 1])
        = Inr (Fin dt, map Fin cand) \<and>
      0 < dt \<and> sum_list cand = sum_list [2, 0, 1] \<and>
      map Fin [3/4, 13/8, 3/4] = map Fin (cand[0 := cand ! (length [0, 1, 2 :: real] - 1)]) \<and>
      sum_list (cand[0 := cand ! (length [0, 1, 2 :: real] - 1)])
        = sum_list [2, 0, 1] - cand ! 0 + cand ! (length [0, 1, 2 :: real] - 1))"
proof -
  have h1: "sorted_wrt (<) [0, 1, 2 :: real]" by simp
  have h2: "2 \<le> length [0, 1, 2 :: real]" by simp
  have h3: "length (map Fin [2, 0, 1]) = length [0, 1, 2 :: real]" by simp
  have h4: "(2::nat) \<le> 2" by simp
  have c: "evolv_Rie_uadv_burgers (map Fin [0, 1, 2]) (map Fin [2, 0, 1]) 2 (Fin (98/100)) deriv_upw
       Wrap (1, 0)
     = Inr ([Fin 0, Fin (1/2)], [map Fin [2, 0, 1], map Fin [3/4, 13/8, 3/4]])"
    by code_simp
  from Rie_candidate_sum_conserved[OF h1 h2 h3 h4, of "Fin (98/100)" deriv_upw]
  obtain t unnt where
    run: "evolv_Rie_uadv_burgers (map Fin [0, 1, 2]) (map Fin [2, 0, 1]) 2 (Fin (98/100)) deriv_upw
             Wrap (1, 0) = Inr (t, unnt)"
    and all: "\<forall>i us. i < 2 - 1 \<and> unnt ! i = map Fin us \<and> (\<exists>v\<in>set us. v \<noteq> 0) \<longrightarrow>
              (\<exists>dt cand.
                 Rie_uadv_next (map Fin [0, 1, 2]) (Fin ([0, 1, 2] ! 1 - [0, 1, 2] ! 0)) (unnt ! i)
                   = Inr (Fin dt, map Fin cand) \<and>
                 0 < dt \<and> t ! (i + 1) = t ! i + Fin dt \<and>
                 sum_list cand = sum_list us \<and>
                 unnt ! (i + 1) = map Fin (cand[0 := cand ! (length [0, 1, 2 :: real] - 1)]) \<and>
                 sum_list (cand[0 := cand ! (length [0, 1, 2 :: real] - 1)])
                   = sum_list us - cand ! 0 + cand ! (length [0, 1, 2 :: real] - 1))"
    by blast
  have u: "unnt = [map Fin [2, 0, 1], map Fin [3/4, 13/8, 3/4]]" using run c by simp
  have pre: "(0::nat) < 2 - 1 \<and> unnt ! 0 = map Fin [2, 0, 1] \<and> (\<exists>v\<in>set [2, 0, 1 :: real]. v \<noteq> 0)"
    using u by simp
  from all[rule_format, OF pre] obtain dt cand where
    "Rie_uadv_next (map Fin [0, 1, 2]) (Fin ([0, 1, 2] ! 1 - [0, 1, 2] ! 0)) (unnt ! 0)
        = Inr (Fin dt, map Fin cand)"
    "0 < dt" "sum_list cand = sum_list [2, 0, 1]"
    "unnt ! (0 + 1) = map Fin (cand[0 := cand ! (length [0, 1, 2 :: real] - 1)])"
    "sum_list (cand[0 := cand ! (length [0, 1, 2 :: real] - 1)])
        = sum_list [2, 0, 1] - cand ! 0 + cand ! (length [0, 1, 2 :: real] - 1)"
    by blast
  then have "\<exists>dt cand.
      Rie_uadv_next (map Fin [0, 1, 2]) (Fin ([0, 1, 2] ! 1 - [0, 1, 2] ! 0)) (map Fin [2, 0, 1])
        = Inr (Fin dt, map Fin cand) \<and>
      0 < dt \<and> sum_list cand = sum_list [2, 0, 1] \<and>
      map Fin [3/4, 13/8, 3/4] = map Fin (cand[0 := cand ! (length [0, 1, 2 :: real] - 1)]) \<and>
      sum_list (cand[0 := cand ! (length [0, 1, 2 :: real] - 1)])
        = sum_list [2, 0, 1] - cand ! 0 + cand ! (length [0, 1, 2 :: real] - 1)"
    unfolding u by (intro exI[of _ dt] exI[of _ cand]) simp
  then show ?thesis using h1 h2 h3 h4 c by blast
qed

text \<open>
  On the uniform grid \<open>[0, 1, 2]\<close> with the field \<open>[2, 0, 1]\<close> the stored column 1 is
  \<open>[3/4, 13/8, 3/4]\<close>: the sum of the field goes from 3 to \<open>25/8\<close> in the first step.
\<close>

theorem Rie_stored_sum_changes:
  "evolv_Rie_uadv_burgers (map Fin [0, 1, 2]) (map Fin [2, 0, 1]) 2 (Fin (98/100)) deriv_upw
       Wrap (1, 0)
     = Inr ([Fin 0, Fin (1/2)], [map Fin [2, 0, 1], map Fin [3/4, 13/8, 3/4]]) \<and>
   sum_list [2, 0, 1 :: real] = 3 \<and> sum_list [3/4, 13/8, 3/4 :: real] = 25/8 \<and>
   sum_list [3/4, 13/8, 3/4 :: real] \<noteq> sum_list [2, 0, 1]"
  by code_simp

end
